theory Spec2Isabelle
  imports Complex_Main "HOL-Library.Char_ord" "HOL-Library.List_Lexorder"
    "HOL-Library.Product_Lexorder" "HOL-Library.Multiset" "HOL-Library.Sublist"
begin

section \<open>The profile generator \<^verbatim>\<open>scripts/generate_profiles.py\<close>\<close>

text \<open>
  The script reads the JSON fragment files of a source directory, keeps the ones that
  carry the required fields, sorts them by category and id, wraps them in an envelope and
  writes the result. The embedding follows the script function by function:
  \<^verbatim>\<open>load_fragment\<close>, \<^verbatim>\<open>collect_fragments\<close>, \<^verbatim>\<open>sort_fragments\<close>,
  \<^verbatim>\<open>generate_profile\<close> and \<^verbatim>\<open>main\<close>. Whatever Python raises is a value
  \<open>Inl e\<close> of a sum type, what it prints is a list of console lines, and what it reads
  from the file system is an argument. The limits of the interpreter (memory, the depth of
  recursion on deeply nested values) are outside the model.
\<close>

subsection \<open>Values read by \<^verbatim>\<open>json.load\<close>\<close>

text \<open>
  A Python \<^verbatim>\<open>str\<close> is modelled by its UTF-8 encoding, a \<^typ>\<open>string\<close>: the order
  of two strings by code points is the lexicographic order of their encodings, and the
  ASCII tests of the script (\<^verbatim>\<open>startswith("_")\<close>, the dot of a suffix) read the same
  bytes. A \<^verbatim>\<open>dict\<close> is an association list in insertion order (a list that repeats a
  key is read at the first occurrence; \<^verbatim>\<open>json.load\<close> builds none); a \<^verbatim>\<open>float\<close> is the
  rational it denotes (the values \<^verbatim>\<open>NaN\<close> and \<^verbatim>\<open>Infinity\<close>, which
  \<^verbatim>\<open>json.load\<close> accepts beyond the JSON grammar, have no counterpart here). A string
  read from JSON may hold an unpaired surrogate (a file writes U+D800 as an escape); it is
  written here as the three bytes the same scheme gives it, \<open>0xED\<close>, a byte from
  \<open>0xA0\<close> to \<open>0xBF\<close> and a continuation byte, which keeps the order by code
  points.
\<close>

datatype json =
    JNull
  | JBool bool
  | JInt int
  | JFloat rat
  | JStr string
  | JArr "json list"
  | JObj "(string \<times> json) list"

datatype py_error =
    TypeError
  | KeyError
  | ValueError
  | AttributeError
  | UnicodeEncodeError
  | JSONDecodeError string
  | OtherError string

text \<open>The number a value stands for in a comparison: \<^verbatim>\<open>bool\<close> is a subclass of \<^verbatim>\<open>int\<close>.\<close>

fun num_val :: "json \<Rightarrow> rat option" where
  "num_val (JBool b) = Some (if b then 1 else 0)"
| "num_val (JInt i) = Some (of_int i)"
| "num_val (JFloat r) = Some r"
| "num_val _ = None"

text \<open>
  Python's \<^verbatim>\<open>==\<close> on the values above: numbers by value, strings and lists by content,
  dicts by their items whatever the insertion order, anything else unequal.
\<close>

fun py_eq :: "json \<Rightarrow> json \<Rightarrow> bool"
  and py_eq_list :: "json list \<Rightarrow> json list \<Rightarrow> bool"
  and py_eq_items :: "(string \<times> json) list \<Rightarrow> (string \<times> json) list \<Rightarrow> bool" where
  "py_eq JNull y = (y = JNull)"
| "py_eq (JBool b) y = (num_val y = Some (if b then 1 else 0))"
| "py_eq (JInt i) y = (num_val y = Some (of_int i))"
| "py_eq (JFloat r) y = (num_val y = Some r)"
| "py_eq (JStr s) y = (y = JStr s)"
| "py_eq (JArr xs) y = (case y of JArr ys \<Rightarrow> py_eq_list xs ys | _ \<Rightarrow> False)"
| "py_eq (JObj a) y =
     (case y of JObj b \<Rightarrow> length a = length b \<and> py_eq_items a b | _ \<Rightarrow> False)"
| "py_eq_list [] ys = (ys = [])"
| "py_eq_list (x # xs) ys =
     (case ys of [] \<Rightarrow> False | y # ys' \<Rightarrow> py_eq x y \<and> py_eq_list xs ys')"
| "py_eq_items [] b = True"
| "py_eq_items ((k, v) # a) b =
     (case map_of b k of None \<Rightarrow> False | Some w \<Rightarrow> py_eq v w \<and> py_eq_items a b)"

text \<open>
  Python's \<^verbatim>\<open><\<close>: defined between two strings, between two numbers and between two
  lists (at the first pair of unequal elements, else by length); every other pair raises
  \<^verbatim>\<open>TypeError\<close>.
\<close>

fun py_lt :: "json \<Rightarrow> json \<Rightarrow> py_error + bool"
  and py_lt_list :: "json list \<Rightarrow> json list \<Rightarrow> py_error + bool" where
  "py_lt (JStr a) y = (case y of JStr b \<Rightarrow> Inr (a < b) | _ \<Rightarrow> Inl TypeError)"
| "py_lt (JArr xs) y = (case y of JArr ys \<Rightarrow> py_lt_list xs ys | _ \<Rightarrow> Inl TypeError)"
| "py_lt x y =
     (case (num_val x, num_val y) of (Some a, Some b) \<Rightarrow> Inr (a < b) | _ \<Rightarrow> Inl TypeError)"
| "py_lt_list [] ys = Inr (ys \<noteq> [])"
| "py_lt_list (x # xs) ys =
     (case ys of [] \<Rightarrow> Inr False
      | y # ys' \<Rightarrow> if py_eq x y then py_lt_list xs ys' else py_lt x y)"

text \<open>Truth value of an object, as \<^verbatim>\<open>if fragment:\<close> tests it.\<close>

fun truthy :: "json \<Rightarrow> bool" where
  "truthy JNull = False"
| "truthy (JBool b) = b"
| "truthy (JInt i) = (i \<noteq> 0)"
| "truthy (JFloat r) = (r \<noteq> 0)"
| "truthy (JStr s) = (s \<noteq> [])"
| "truthy (JArr xs) = (xs \<noteq> [])"
| "truthy (JObj d) = (d \<noteq> [])"

text \<open>
  \<^verbatim>\<open>field in data\<close>: a key of a dict, an element of a list, a substring of a string;
  a number, a boolean and \<^verbatim>\<open>None\<close> are not iterable.
\<close>

fun py_in :: "string \<Rightarrow> json \<Rightarrow> py_error + bool" where
  "py_in field (JObj d) = Inr (field \<in> fst ` set d)"
| "py_in field (JArr xs) = Inr (\<exists>x \<in> set xs. py_eq x (JStr field))"
| "py_in field (JStr s) = Inr (sublist field s)"
| "py_in field _ = Inl TypeError"

text \<open>\<^verbatim>\<open>data[key]\<close> with a string key: only a dict can be indexed by a string.\<close>

fun subscript :: "json \<Rightarrow> string \<Rightarrow> py_error + json" where
  "subscript (JObj d) k = (case map_of d k of None \<Rightarrow> Inl KeyError | Some v \<Rightarrow> Inr v)"
| "subscript _ k = Inl TypeError"

text \<open>\<^verbatim>\<open>f.get(key, default)\<close>: a method of dicts only.\<close>

fun dict_get :: "json \<Rightarrow> string \<Rightarrow> json \<Rightarrow> py_error + json" where
  "dict_get (JObj d) k dflt = Inr (case map_of d k of None \<Rightarrow> dflt | Some v \<Rightarrow> v)"
| "dict_get _ k dflt = Inl AttributeError"

text \<open>\<^verbatim>\<open>xs.index(v)\<close> on a list of strings: the first position that equals \<open>v\<close>.\<close>

fun list_index :: "string list \<Rightarrow> json \<Rightarrow> py_error + nat" where
  "list_index [] v = Inl ValueError"
| "list_index (x # xs) v =
     (if py_eq (JStr x) v then Inr 0
      else (case list_index xs v of Inl e \<Rightarrow> Inl e | Inr i \<Rightarrow> Inr (Suc i)))"

text \<open>
  \<^verbatim>\<open>len(s)\<close> and \<^verbatim>\<open>s[:n]\<close> count code points: in UTF-8 the bytes \<open>0x80\<close> to
  \<open>0xBF\<close> continue the code point before them.
\<close>

definition continuation :: "char \<Rightarrow> bool" where
  "continuation c = (128 \<le> (of_char c :: nat) \<and> (of_char c :: nat) < 192)"

definition py_len :: "string \<Rightarrow> nat" where
  "py_len s = length (filter (\<lambda>c. \<not> continuation c) s)"

fun py_take :: "nat \<Rightarrow> string \<Rightarrow> string" where
  "py_take n [] = []"
| "py_take n (c # cs) =
     (if continuation c then c # py_take n cs
      else (case n of 0 \<Rightarrow> [] | Suc m \<Rightarrow> c # py_take m cs))"

text \<open>
  The UTF-8 codec of the console and of the output file refuses a text that holds an
  unpaired surrogate: \<^verbatim>\<open>print\<close> and \<^verbatim>\<open>write\<close> then raise
  \<^verbatim>\<open>UnicodeEncodeError\<close> and put out nothing. The text \<^verbatim>\<open>str(v)\<close> that an f-string
  formats holds one only when \<open>v\<close> is itself such a string; inside a list or a dict
  \<^verbatim>\<open>repr\<close> escapes it. The names of the files and the messages of the exceptions are
  taken to be encodable.
\<close>

fun encodable :: "string \<Rightarrow> bool" where
  "encodable (c # d # cs) =
     (\<not> (c = CHR 0xED \<and> 160 \<le> (of_char d :: nat) \<and> (of_char d :: nat) < 192)
      \<and> encodable (d # cs))"
| "encodable _ = True"

fun printable :: "json \<Rightarrow> bool" where
  "printable (JStr s) = encodable s"
| "printable _ = True"

subsection \<open>Console lines\<close>

text \<open>One constructor for each \<^verbatim>\<open>print\<close> of the script, with the values it formats.\<close>

datatype line =
    Missing_required_fields string "string list"
  | Id_mismatch string json
  | Invalid_JSON string string
  | Load_error string py_error
  | Source_dir_not_found
  | Scanning
  | Found nat
  | Fragment_ok string json
  | Rule
  | Title
  | No_valid_fragments
  | Summary nat
  | Validation_complete
  | Would_generate
  | Output_path
  | Templates_count nat
  | Size nat
  | Preview_header
  | Preview string
  | Generated

datatype tag = ERROR | WARN | OK | DIR | SUMMARY | DRY_RUN | Plain

fun tag_of :: "line \<Rightarrow> tag" where
  "tag_of (Missing_required_fields n ms) = ERROR"
| "tag_of (Id_mismatch n v) = WARN"
| "tag_of (Invalid_JSON n e) = ERROR"
| "tag_of (Load_error n e) = ERROR"
| "tag_of Source_dir_not_found = ERROR"
| "tag_of Scanning = DIR"
| "tag_of (Fragment_ok n v) = OK"
| "tag_of No_valid_fragments = ERROR"
| "tag_of (Summary n) = SUMMARY"
| "tag_of Validation_complete = OK"
| "tag_of Would_generate = DRY_RUN"
| "tag_of Generated = OK"
| "tag_of _ = Plain"

text \<open>The file a line of \<^verbatim>\<open>load_fragment\<close> or of the collecting loop names.\<close>

fun file_of :: "line \<Rightarrow> string option" where
  "file_of (Missing_required_fields n ms) = Some n"
| "file_of (Id_mismatch n v) = Some n"
| "file_of (Invalid_JSON n e) = Some n"
| "file_of (Load_error n e) = Some n"
| "file_of (Fragment_ok n v) = Some n"
| "file_of _ = None"

subsection \<open>\<^verbatim>\<open>load_fragment\<close>\<close>

text \<open>
  What \<^verbatim>\<open>open\<close> and \<^verbatim>\<open>json.load\<close> make of a file is given with the file: the
  parsed value, or the exception raised (\<^verbatim>\<open>JSONDecodeError\<close> with its message for text
  that is not JSON, another exception for a file that cannot be read or decoded).
\<close>

datatype read_result = Parsed json | Raised py_error

definition required_fields :: "string list" where
  "required_fields = [''id'', ''name'', ''description'', ''category'', ''variables'']"

text \<open>
  The comprehension \<^verbatim>\<open>[field for field in required_fields if field not in data]\<close>,
  evaluated left to right; the first test that raises ends it.
\<close>

fun missing_fields :: "string list \<Rightarrow> json \<Rightarrow> py_error + string list" where
  "missing_fields [] data = Inr []"
| "missing_fields (field # rest) data =
     (case py_in field data of
        Inl e \<Rightarrow> Inl e
      | Inr present \<Rightarrow>
          (case missing_fields rest data of
             Inl e \<Rightarrow> Inl e
           | Inr ms \<Rightarrow> Inr (if present then ms else field # ms)))"

text \<open>
  \<^verbatim>\<open>Path.stem\<close>: the name up to its last dot, when that dot is neither the first nor
  the last character.
\<close>

fun rfind_dot :: "string \<Rightarrow> nat option" where
  "rfind_dot [] = None"
| "rfind_dot (c # cs) =
     (case rfind_dot cs of
        Some i \<Rightarrow> Some (Suc i)
      | None \<Rightarrow> if c = CHR ''.'' then Some 0 else None)"

definition stem :: "string \<Rightarrow> string" where
  "stem name =
     (case rfind_dot name of
        Some i \<Rightarrow> if 0 < i \<and> Suc i < length name then take i name else name
      | None \<Rightarrow> name)"

text \<open>
  The body of the \<^verbatim>\<open>try\<close> after the file is parsed; an exception it raises, also the
  one of the \<^verbatim>\<open>print\<close> of the warning, reaches the handler \<^verbatim>\<open>except Exception\<close>.
\<close>

definition validate_fragment :: "string \<Rightarrow> json \<Rightarrow> py_error + (line list \<times> json option)" where
  "validate_fragment name data =
     (case missing_fields required_fields data of
        Inl e \<Rightarrow> Inl e
      | Inr missing \<Rightarrow>
          if missing \<noteq> [] then Inr ([Missing_required_fields name missing], None)
          else
            (case subscript data ''id'' of
               Inl e \<Rightarrow> Inl e
             | Inr v \<Rightarrow>
                 if \<not> py_eq v (JStr (stem name)) then
                   (if printable v then Inr ([Id_mismatch name v], Some data)
                    else Inl UnicodeEncodeError)
                 else Inr ([], Some data)))"

fun load_fragment :: "string \<Rightarrow> read_result \<Rightarrow> line list \<times> json option" where
  "load_fragment name (Raised (JSONDecodeError msg)) = ([Invalid_JSON name msg], None)"
| "load_fragment name (Raised e) = ([Load_error name e], None)"
| "load_fragment name (Parsed data) =
     (case validate_fragment name data of
        Inl e \<Rightarrow> ([Load_error name e], None)
      | Inr r \<Rightarrow> r)"

subsection \<open>\<^verbatim>\<open>collect_fragments\<close>\<close>

text \<open>
  The source directory is absent (\<open>None\<close>) or lists its entries, each name once, in the
  order in which the file system happens to enumerate them.
\<close>

type_synonym entries = "(string \<times> read_result) list"

definition json_files :: "entries \<Rightarrow> entries" where
  "json_files es =
     sort_key fst (filter (\<lambda>f. \<not> prefix ''_'' (fst f)) (filter (\<lambda>f. suffix ''.json'' (fst f)) es))"

text \<open>
  The \<^verbatim>\<open>for\<close> loop, with the lines printed so far and the list \<^verbatim>\<open>fragments\<close>. The
  \<^verbatim>\<open>print\<close> of the OK line stands outside every \<^verbatim>\<open>try\<close>: an exception it raises
  leaves the loop and the function, with the lines printed before it.
\<close>

fun load_loop ::
  "entries \<Rightarrow> line list \<times> json list \<Rightarrow> (line list \<times> py_error) + (line list \<times> json list)" where
  "load_loop [] st = Inr st"
| "load_loop ((name, r) # rest) (out, fragments) =
     (case load_fragment name r of
        (ls, None) \<Rightarrow> load_loop rest (out @ ls, fragments)
      | (ls, Some fragment) \<Rightarrow>
          if truthy fragment then
            (case subscript fragment ''name'' of
               Inl e \<Rightarrow> Inl (out @ ls, e)
             | Inr v \<Rightarrow>
                 if printable v then
                   load_loop rest (out @ ls @ [Fragment_ok name v], fragments @ [fragment])
                 else Inl (out @ ls, UnicodeEncodeError))
          else load_loop rest (out @ ls, fragments))"

definition collect_fragments ::
  "entries option \<Rightarrow> (line list \<times> py_error) + (line list \<times> json list)" where
  "collect_fragments dir =
     (case dir of
        None \<Rightarrow> Inr ([Source_dir_not_found], [])
      | Some es \<Rightarrow> load_loop (json_files es) ([Scanning, Found (length (json_files es))], []))"

subsection \<open>\<^verbatim>\<open>sort_fragments\<close>\<close>

definition category_order :: "string list" where
  "category_order =
     [''Development'', ''AI'', ''Cloud'', ''DevOps'', ''Database'', ''Network'', ''CI/CD'']"

text \<open>
  The \<^verbatim>\<open>try\<close> around \<^verbatim>\<open>category_order.index(category)\<close>: of the exceptions only
  \<^verbatim>\<open>ValueError\<close> is caught.
\<close>

definition cat_index_of :: "json \<Rightarrow> py_error + nat" where
  "cat_index_of category =
     (case list_index category_order category of
        Inr i \<Rightarrow> Inr i
      | Inl ValueError \<Rightarrow> Inr (length category_order)
      | Inl e \<Rightarrow> Inl e)"

definition sort_key_of :: "json \<Rightarrow> py_error + (nat \<times> json)" where
  "sort_key_of f =
     (case dict_get f ''category'' (JStr ''ZZZ'') of
        Inl e \<Rightarrow> Inl e
      | Inr category \<Rightarrow>
          (case cat_index_of category of
             Inl e \<Rightarrow> Inl e
           | Inr cat_index \<Rightarrow>
               (case dict_get f ''id'' (JStr []) of
                  Inl e \<Rightarrow> Inl e
                | Inr i \<Rightarrow> Inr (cat_index, i))))"

text \<open>
  \<^verbatim>\<open><\<close> on two key tuples: decided by the category indices when they differ, false when
  the ids are equal, and otherwise the comparison of the ids, which may raise.
\<close>

definition key_lt :: "nat \<times> json \<Rightarrow> nat \<times> json \<Rightarrow> py_error + bool" where
  "key_lt k1 k2 =
     (if fst k1 \<noteq> fst k2 then Inr (fst k1 < fst k2)
      else if py_eq (snd k1) (snd k2) then Inr False
      else py_lt (snd k1) (snd k2))"

text \<open>
  \<^verbatim>\<open>sorted(xs, key=...)\<close> computes the key of every element, then arranges the elements
  with \<^verbatim>\<open><\<close> on the keys, keeping the input order of elements whose keys do not
  differ. A comparison that raises ends the call. A sort that returns has settled the
  order of every two positions by comparisons that did not raise, which it cannot do for
  two keys that cannot be compared: then the call raises \<^verbatim>\<open>TypeError\<close> (for a list
  of two elements their comparison is the only one made). When every two keys can be
  compared the result is that of the stable insertion below.
\<close>

fun keys_of :: "json list \<Rightarrow> py_error + (nat \<times> json) list" where
  "keys_of [] = Inr []"
| "keys_of (f # fs) =
     (case sort_key_of f of
        Inl e \<Rightarrow> Inl e
      | Inr k \<Rightarrow> (case keys_of fs of Inl e \<Rightarrow> Inl e | Inr ks \<Rightarrow> Inr (k # ks)))"

fun comparable :: "nat \<times> json \<Rightarrow> nat \<times> json \<Rightarrow> bool" where
  "comparable k1 k2 = (isl (key_lt k1 k2) = False \<and> isl (key_lt k2 k1) = False)"

fun orderable :: "(nat \<times> json) list \<Rightarrow> bool" where
  "orderable [] = True"
| "orderable (k # ks) = (list_all (comparable k) ks \<and> orderable ks)"

fun insort_lt :: "('a \<Rightarrow> 'a \<Rightarrow> bool) \<Rightarrow> 'a \<Rightarrow> 'a list \<Rightarrow> 'a list" where
  "insort_lt lt x [] = [x]"
| "insort_lt lt x (y # ys) = (if lt y x then y # insort_lt lt x ys else x # y # ys)"

definition sort_lt :: "('a \<Rightarrow> 'a \<Rightarrow> bool) \<Rightarrow> 'a list \<Rightarrow> 'a list" where
  "sort_lt lt xs = foldr (insort_lt lt) xs []"

definition sort_fragments :: "json list \<Rightarrow> py_error + json list" where
  "sort_fragments fragments =
     (case keys_of fragments of
        Inl e \<Rightarrow> Inl e
      | Inr ks \<Rightarrow>
          if orderable ks then
            Inr (map snd (sort_lt (\<lambda>a b. key_lt (fst a) (fst b) = Inr True) (zip ks fragments)))
          else Inl TypeError)"

subsection \<open>\<^verbatim>\<open>generate_profile\<close>\<close>

text \<open>
  The date \<^verbatim>\<open>datetime.now()\<close> returns is an argument; \<^verbatim>\<open>strftime("%Y-%m-%d")\<close>
  writes the year on four digits, the month and the day on two.
\<close>

record date =
  year :: nat
  month :: nat
  day :: nat

definition digit :: "nat \<Rightarrow> char" where
  "digit n = ''0123456789'' ! (n mod 10)"

definition strftime_Ymd :: "date \<Rightarrow> string" where
  "strftime_Ymd d =
     [digit (year d div 1000), digit (year d div 100), digit (year d div 10), digit (year d),
      CHR ''-'', digit (month d div 10), digit (month d),
      CHR ''-'', digit (day d div 10), digit (day d)]"

definition generate_profile :: "date \<Rightarrow> json list \<Rightarrow> json" where
  "generate_profile today fragments =
     JObj [(''version'', JStr ''1.0.0''),
           (''lastUpdated'', JStr (strftime_Ymd today)),
           (''author'', JStr ''TCM Community''),
           (''description'', JStr ''Terminal Context Manager - Profile Templates & Environment Variables Dictionary''),
           (''repository'', JStr ''https://github.com/ZhiZeYi/terminal-context-template''),
           (''templates'', JArr fragments)]"

subsection \<open>\<^verbatim>\<open>main\<close>\<close>

text \<open>
  A run takes the two flags, the date, the source directory and the serialiser
  \<^verbatim>\<open>json.dumps(_, indent=2, ensure_ascii=False)\<close>, which leaves an unpaired surrogate
  as it is. It yields the console lines, whether the output file was opened (which
  creates or empties it), the text written to it (\<open>None\<close> when nothing was written) and
  the way the process ends. An exception that nothing catches ends the process with a
  traceback and the exit status 1, the status of \<^verbatim>\<open>sys.exit(1)\<close>. The output file
  lies in another directory than the fragments; creating the directory and opening the
  file are taken to succeed.
\<close>

record args =
  validate :: bool
  dry_run :: bool

datatype ending = Returned | SysExit nat | Uncaught py_error


record run =
  console :: "line list"
  touched :: bool
  output_file :: "string option"
  ending :: ending

definition banner :: "line list" where
  "banner = [Rule, Title, Rule]"

text \<open>The text of the preview: \<^verbatim>\<open>output_json[:500] + "..."\<close> for a longer one.\<close>

definition preview :: "string \<Rightarrow> string" where
  "preview output_json =
     (if py_len output_json > 500 then py_take 500 output_json @ ''...'' else output_json)"

definition main :: "(json \<Rightarrow> string) \<Rightarrow> args \<Rightarrow> date \<Rightarrow> entries option \<Rightarrow> run" where
  "main dumps a today dir =
     (case collect_fragments dir of
        Inl (ls, e) \<Rightarrow>
          \<lparr>console = banner @ ls, touched = False, output_file = None, ending = Uncaught e\<rparr>
      | Inr (ls, fragments) \<Rightarrow>
          if fragments = [] then
            \<lparr>console = banner @ ls @ [No_valid_fragments], touched = False,
             output_file = None, ending = SysExit 1\<rparr>
          else if validate a then
            \<lparr>console = banner @ ls @ [Summary (length fragments), Validation_complete],
             touched = False, output_file = None, ending = SysExit 0\<rparr>
          else
            (case sort_fragments fragments of
               Inl e \<Rightarrow>
                 \<lparr>console = banner @ ls @ [Summary (length fragments)], touched = False,
                  output_file = None, ending = Uncaught e\<rparr>
             | Inr sorted_fragments \<Rightarrow>
                 (let profile = generate_profile today sorted_fragments;
                      output_json = dumps profile
                  in if dry_run a then
                       (if encodable (preview output_json) then
                          \<lparr>console = banner @ ls @
                             [Summary (length fragments), Would_generate, Output_path,
                              Templates_count (length sorted_fragments),
                              Size (py_len output_json), Preview_header,
                              Preview (preview output_json), Rule],
                           touched = False, output_file = None, ending = Returned\<rparr>
                        else
                          \<lparr>console = banner @ ls @
                             [Summary (length fragments), Would_generate, Output_path,
                              Templates_count (length sorted_fragments),
                              Size (py_len output_json), Preview_header],
                           touched = False, output_file = None,
                           ending = Uncaught UnicodeEncodeError\<rparr>)
                     else
                       (if encodable output_json then
                          \<lparr>console = banner @ ls @
                             [Summary (length fragments), Generated,
                              Templates_count (length sorted_fragments),
                              Size (py_len output_json), Rule],
                           touched = True, output_file = Some (output_json @ [CHR 0x0A]),
                           ending = Returned\<rparr>
                        else
                          \<lparr>console = banner @ ls @ [Summary (length fragments)],
                           touched = True, output_file = None,
                           ending = Uncaught UnicodeEncodeError\<rparr>))))"

subsection \<open>Vocabulary of the specification\<close>

text \<open>
  The specification speaks of a valid fragment: an object with the five required
  attributes whose \<^verbatim>\<open>id\<close> and \<^verbatim>\<open>category\<close> are strings. The rank of a category is
  its position in the precedence list, the length of the list for a category that is not
  in it.
\<close>

fun field_str :: "string \<Rightarrow> json \<Rightarrow> string option" where
  "field_str k (JObj d) = (case map_of d k of Some (JStr s) \<Rightarrow> Some s | _ \<Rightarrow> None)"
| "field_str k _ = None"

definition valid_fragment :: "json \<Rightarrow> bool" where
  "valid_fragment f =
     (missing_fields required_fields f = Inr [] \<and> field_str ''id'' f \<noteq> None
      \<and> field_str ''category'' f \<noteq> None)"

definition category_of :: "json \<Rightarrow> string" where
  "category_of f = the (field_str ''category'' f)"

definition id_of :: "json \<Rightarrow> string" where
  "id_of f = the (field_str ''id'' f)"

definition category_rank :: "string \<Rightarrow> nat" where
  "category_rank c = length (takeWhile (\<lambda>x. x \<noteq> c) category_order)"

text \<open>
  A fragment is string-keyed when the key \<^verbatim>\<open>sort_key\<close> computes for it holds a string
  in its second component; \<open>str_key\<close> is then that key.
\<close>

definition string_keyed :: "json \<Rightarrow> bool" where
  "string_keyed f = (case sort_key_of f of Inr (r, JStr i) \<Rightarrow> True | _ \<Rightarrow> False)"

definition str_key :: "json \<Rightarrow> nat \<times> string" where
  "str_key f = (case sort_key_of f of Inr (r, JStr i) \<Rightarrow> (r, i) | _ \<Rightarrow> (0, []))"

text \<open>
  A candidate is a name the collector keeps: it ends in \<^verbatim>\<open>.json\<close> and does not begin
  with an underscore. For one file, \<open>loaded\<close> is the fragment \<^verbatim>\<open>load_fragment\<close>
  returns and \<open>lines_of\<close> what the loop prints for it; \<open>accepted\<close> collects the
  fragments of a list of files.
\<close>

definition candidate :: "string \<Rightarrow> bool" where
  "candidate name = (suffix ''.json'' name \<and> \<not> prefix ''_'' name)"

definition loaded :: "string \<times> read_result \<Rightarrow> json option" where
  "loaded f = snd (load_fragment (fst f) (snd f))"

definition accepted :: "entries \<Rightarrow> json list" where
  "accepted fs = List.map_filter loaded fs"

definition lines_of :: "string \<times> read_result \<Rightarrow> line list" where
  "lines_of f =
     fst (load_fragment (fst f) (snd f)) @
     (case loaded f of
        None \<Rightarrow> []
      | Some d \<Rightarrow> (case subscript d ''name'' of Inr v \<Rightarrow> [Fragment_ok (fst f) v] | Inl e \<Rightarrow> []))"

text \<open>
  The name of a fragment is printable when \<^verbatim>\<open>fragment['name']\<close> is there and the
  console can encode its text; likewise its id.
\<close>

definition printable_name :: "json \<Rightarrow> bool" where
  "printable_name d = (case subscript d ''name'' of Inr v \<Rightarrow> printable v | Inl e \<Rightarrow> False)"

definition printable_id :: "json \<Rightarrow> bool" where
  "printable_id d = (case subscript d ''id'' of Inr v \<Rightarrow> printable v | Inl e \<Rightarrow> False)"

text \<open>
  A fragment lacks a key when it is an object without it; its id is plain when it is
  absent or a string.
\<close>

fun lacks :: "string \<Rightarrow> json \<Rightarrow> bool" where
  "lacks k (JObj d) = (map_of d k = None)"
| "lacks k _ = False"

definition plain_id :: "json \<Rightarrow> bool" where
  "plain_id f =
     (case f of
        JObj d \<Rightarrow> (case map_of d ''id'' of None \<Rightarrow> True | Some (JStr s) \<Rightarrow> True | _ \<Rightarrow> False)
      | _ \<Rightarrow> False)"

text \<open>
  A date as \<^verbatim>\<open>datetime.now()\<close> returns one in a year of four digits; the digits of a
  string and the number they write in base ten.
\<close>

definition valid_date :: "date \<Rightarrow> bool" where
  "valid_date d =
     (1000 \<le> year d \<and> year d \<le> 9999 \<and> 1 \<le> month d \<and> month d \<le> 12
      \<and> 1 \<le> day d \<and> day d \<le> 31)"

definition digits :: "string \<Rightarrow> bool" where
  "digits s = list_all (\<lambda>c. c \<in> set ''0123456789'') s"

definition decimal :: "string \<Rightarrow> nat" where
  "decimal s = foldl (\<lambda>n c. 10 * n + (of_char c - 48)) 0 s"

subsection \<open>Example fragments\<close>

definition fragment :: "string \<Rightarrow> string \<Rightarrow> json" where
  "fragment i c =
     JObj [(''id'', JStr i), (''name'', JStr i), (''description'', JStr []),
           (''category'', JStr c), (''variables'', JObj [])]"

definition docker :: json where
  "docker = fragment ''docker'' ''DevOps''"

definition openai :: json where
  "openai = fragment ''openai'' ''AI''"

text \<open>Two fragments with the same id and two categories outside the precedence list.\<close>

definition unlisted_a :: json where
  "unlisted_a = fragment ''x'' ''Foo''"

definition unlisted_b :: json where
  "unlisted_b = fragment ''x'' ''Bar''"

text \<open>An object whose id is a number, and one without an id.\<close>

definition numbered :: json where
  "numbered = JObj [(''category'', JStr ''AI''), (''id'', JInt 5)]"

definition nameless :: json where
  "nameless = JObj [(''category'', JStr ''AI'')]"

text \<open>A fragment file without \<^verbatim>\<open>variables\<close>, and a small source directory.\<close>

definition no_variables :: json where
  "no_variables =
     JObj [(''id'', JStr ''broken''), (''name'', JStr ''Broken''), (''description'', JStr []),
           (''category'', JStr ''AI'')]"

definition source_dir :: entries where
  "source_dir =
     [(''openai.json'', Parsed openai),
      (''_draft.json'', Raised (JSONDecodeError ''Expecting value'')),
      (''docker.json'', Parsed docker),
      (''broken.json'', Parsed no_variables),
      (''notes.txt'', Raised (OtherError ''not read''))]"

text \<open>The same directory, enumerated in another order and with another draft.\<close>

definition source_dir' :: entries where
  "source_dir' =
     [(''notes.txt'', Raised (OtherError ''not read'')),
      (''broken.json'', Parsed no_variables),
      (''docker.json'', Parsed docker),
      (''openai.json'', Parsed openai),
      (''_draft.json'', Parsed JNull)]"


text \<open>A date, the two flags of a plain run, and a stand-in for the serialiser.\<close>

definition a_day :: date where
  "a_day = \<lparr>year = 2026, month = 11, day = 4\<rparr>"

definition generate :: args where
  "generate = \<lparr>validate = False, dry_run = False\<rparr>"

definition keys_only :: "json \<Rightarrow> string" where
  "keys_only j = (case j of JObj kv \<Rightarrow> concat (map fst kv) | _ \<Rightarrow> [])"







section \<open>Properties\<close>

subsection \<open>The sorter on string keys\<close>

lemma list_index_error: "list_index xs v = Inl e \<Longrightarrow> e = ValueError"
  by (induction xs) (auto split: if_splits sum.splits)

lemma cat_index_of_eq:
  "cat_index_of c =
     Inr (case list_index category_order c of Inr i \<Rightarrow> i | Inl e \<Rightarrow> length category_order)"
proof (cases "list_index category_order c")
  case (Inl e)
  then have "e = ValueError" by (rule list_index_error)
  with Inl show ?thesis by (simp add: cat_index_of_def)
next
  case (Inr i)
  then show ?thesis by (simp add: cat_index_of_def)
qed

lemma sort_key_of_eq:
  "sort_key_of f =
     (case dict_get f ''category'' (JStr ''ZZZ'') of
        Inl e \<Rightarrow> Inl e
      | Inr category \<Rightarrow>
          (case dict_get f ''id'' (JStr []) of
             Inl e \<Rightarrow> Inl e
           | Inr i \<Rightarrow>
               Inr (case list_index category_order category of
                      Inr i \<Rightarrow> i | Inl e \<Rightarrow> length category_order, i)))"
  by (simp add: sort_key_of_def cat_index_of_eq split: sum.splits)

lemma string_keyedD: "string_keyed f \<Longrightarrow> sort_key_of f = Inr (fst (str_key f), JStr (snd (str_key f)))"
  by (auto simp: string_keyed_def str_key_def split: sum.splits prod.splits json.splits)

lemma key_lt_str: "key_lt (r1, JStr a) (r2, JStr b) = Inr ((r1, a) < (r2, b))"
  by (auto simp: key_lt_def less_prod_def)

lemma keys_of_string_keyed:
  "list_all string_keyed fs \<Longrightarrow>
   keys_of fs = Inr (map (\<lambda>f. (fst (str_key f), JStr (snd (str_key f)))) fs)"
  by (induction fs) (auto simp: string_keyedD)

lemma orderable_str:
  "orderable (map (\<lambda>f. (fst (str_key f), JStr (snd (str_key f)))) fs)"
  by (induction fs) (auto simp: list_all_iff key_lt_str)

lemma insort_lt_str:
  "insort_lt (\<lambda>a b. key_lt (fst a) (fst b) = Inr True)
      ((fst (str_key x), JStr (snd (str_key x))), x)
      (map (\<lambda>f. ((fst (str_key f), JStr (snd (str_key f))), f)) ys)
   = map (\<lambda>f. ((fst (str_key f), JStr (snd (str_key f))), f)) (insort_key str_key x ys)"
  by (induction ys) (auto simp: key_lt_str)

lemma zip_map_self: "zip (map g fs) fs = map (\<lambda>f. (g f, f)) fs"
  by (induction fs) auto

lemma sort_lt_str:
  "sort_lt (\<lambda>a b. key_lt (fst a) (fst b) = Inr True)
      (map (\<lambda>f. ((fst (str_key f), JStr (snd (str_key f))), f)) fs)
   = map (\<lambda>f. ((fst (str_key f), JStr (snd (str_key f))), f)) (sort_key str_key fs)"
  by (induction fs) (auto simp: sort_lt_def insort_lt_str [simplified])

lemma sort_fragments_string_keyed:
  "list_all string_keyed fs \<Longrightarrow> sort_fragments fs = Inr (sort_key str_key fs)"
  by (simp add: sort_fragments_def keys_of_string_keyed orderable_str zip_map_self sort_lt_str
      comp_def)

lemma list_index_rank:
  "list_index xs (JStr c) = (if c \<in> set xs then Inr (length (takeWhile (\<lambda>x. x \<noteq> c) xs)) else Inl ValueError)"
  by (induction xs) auto

lemma length_takeWhile_notin: "c \<notin> set xs \<Longrightarrow> length (takeWhile (\<lambda>x. x \<noteq> c) xs) = length xs"
  by (induction xs) auto

lemma valid_string_keyed: "valid_fragment f \<Longrightarrow> string_keyed f"
  by (cases f) (auto simp: valid_fragment_def string_keyed_def sort_key_of_eq list_index_rank
      split: option.splits json.splits sum.splits)

lemma valid_str_key: "valid_fragment f \<Longrightarrow> str_key f = (category_rank (category_of f), id_of f)"
  by (cases f) (auto simp: valid_fragment_def str_key_def sort_key_of_eq list_index_rank
      category_rank_def category_of_def id_of_def length_takeWhile_notin
      split: option.splits json.splits sum.splits)

lemma takeWhile_index:
  "c \<in> set xs \<Longrightarrow>
   length (takeWhile (\<lambda>x. x \<noteq> c) xs) < length xs \<and> xs ! length (takeWhile (\<lambda>x. x \<noteq> c) xs) = c"
  by (induction xs) auto

lemma category_rank_known:
  "c \<in> set category_order \<Longrightarrow>
   category_rank c < length category_order \<and> category_order ! category_rank c = c"
  unfolding category_rank_def by (rule takeWhile_index)

lemma category_rank_unknown:
  "c \<notin> set category_order \<Longrightarrow> category_rank c = length category_order"
  by (simp add: category_rank_def length_takeWhile_notin)

lemma valid_sort_key_of:
  "valid_fragment f \<Longrightarrow> sort_key_of f = Inr (category_rank (category_of f), JStr (id_of f))"
  using string_keyedD [OF valid_string_keyed] valid_str_key by simp

lemma insort_key_agree:
  "f x = g x \<Longrightarrow> \<forall>y \<in> set ys. f y = g y \<Longrightarrow> insort_key f x ys = insort_key g x ys"
  by (induction ys) auto

lemma sort_key_agree: "\<forall>x \<in> set xs. f x = g x \<Longrightarrow> sort_key f xs = sort_key g xs"
proof (induction xs)
  case Nil
  show ?case by simp
next
  case (Cons a xs)
  then have ih: "sort_key f xs = sort_key g xs" by simp
  have "insort_key f a (sort_key g xs) = insort_key g a (sort_key g xs)"
    using Cons.prems by (intro insort_key_agree) simp_all
  with ih show ?case by simp
qed

lemma sort_fragments_valid:
  assumes "list_all valid_fragment fs"
  shows "sort_fragments fs = Inr (sort_key (\<lambda>f. (category_rank (category_of f), id_of f)) fs)"
proof -
  have "list_all string_keyed fs"
    using assms by (simp add: list_all_iff valid_string_keyed)
  then have "sort_fragments fs = Inr (sort_key str_key fs)"
    by (rule sort_fragments_string_keyed)
  moreover have "sort_key str_key fs = sort_key (\<lambda>f. (category_rank (category_of f), id_of f)) fs"
    using assms by (intro sort_key_agree) (simp add: list_all_iff valid_str_key)
  ultimately show ?thesis by simp
qed

lemma sorted_key_nth:
  fixes k :: "'a \<Rightarrow> nat \<times> string"
  assumes "sorted (map k out)" "i < j" "j < length out"
  shows "fst (k (out ! i)) < fst (k (out ! j)) \<or>
         (fst (k (out ! i)) = fst (k (out ! j)) \<and> snd (k (out ! i)) \<le> snd (k (out ! j)))"
proof -
  have "map k out ! i \<le> map k out ! j"
    using assms by (intro sorted_nth_mono) auto
  then have "k (out ! i) \<le> k (out ! j)"
    using assms by simp
  then show ?thesis
    by (auto simp: less_eq_prod_def)
qed

lemma sort_devops_ai:
  assumes "valid_fragment d" "valid_fragment p"
    and "category_of d = ''DevOps''" "category_of p = ''AI''"
  shows "sort_fragments [d, p] = Inr [p, d]"
proof -
  have "sort_fragments [d, p] = Inr (sort_key (\<lambda>f. (category_rank (category_of f), id_of f)) [d, p])"
    using assms(1,2) by (intro sort_fragments_valid) simp
  moreover have "category_rank ''DevOps'' = 3" "category_rank ''AI'' = 1"
    by (simp_all add: category_rank_def category_order_def)
  ultimately show ?thesis
    using assms(3,4) by (simp add: less_eq_prod_def)
qed

lemma valid_fragment_example: "valid_fragment (fragment i c)"
  by (simp add: valid_fragment_def fragment_def required_fields_def)

lemma example_fields: "category_of (fragment i c) = c" "id_of (fragment i c) = i"
  by (simp_all add: category_of_def id_of_def fragment_def)

subsection \<open>The sorter in general\<close>

lemma keys_of_length: "keys_of fs = Inr ks \<Longrightarrow> length ks = length fs"
  by (induction fs arbitrary: ks) (auto split: sum.splits)

lemma mset_insort_lt: "mset (insort_lt lt x ys) = add_mset x (mset ys)"
  by (induction ys) auto

lemma mset_sort_lt: "mset (sort_lt lt xs) = mset xs"
  by (induction xs) (auto simp: sort_lt_def mset_insort_lt)

lemma mset_map_snd_zip: "length ks = length fs \<Longrightarrow> mset (map snd (zip ks fs)) = mset fs"
  by simp

lemma sort_fragments_mset:
  assumes "sort_fragments fs = Inr out"
  shows "mset out = mset fs"
proof -
  from assms obtain ks where ks: "keys_of fs = Inr ks"
    and out: "out = map snd (sort_lt (\<lambda>a b. key_lt (fst a) (fst b) = Inr True) (zip ks fs))"
    by (auto simp: sort_fragments_def split: sum.splits if_splits)
  have "mset out = image_mset snd (mset (zip ks fs))"
    unfolding out by (simp add: mset_sort_lt)
  also have "\<dots> = mset (map snd (zip ks fs))" by simp
  also have "\<dots> = mset fs"
    using keys_of_length [OF ks] by (rule mset_map_snd_zip)
  finally show ?thesis .
qed

lemma sort_key_of_obj:
  "sort_key_of (JObj d) =
     Inr (case list_index category_order
                 (case map_of d ''category'' of None \<Rightarrow> JStr ''ZZZ'' | Some v \<Rightarrow> v) of
            Inr i \<Rightarrow> i | Inl e \<Rightarrow> length category_order,
          case map_of d ''id'' of None \<Rightarrow> JStr [] | Some v \<Rightarrow> v)"
  by (simp add: sort_key_of_eq)

lemma list_index_bound: "list_index xs v = Inr i \<Longrightarrow> i < length xs"
  by (induction xs arbitrary: i) (auto split: if_splits sum.splits)

lemma ZZZ_unlisted: "list_index category_order (JStr ''ZZZ'') = Inl ValueError"
  by (simp add: category_order_def)

lemma sort_idem:
  fixes k :: "'a \<Rightarrow> 'b :: linorder"
  shows "sort_key k (sort_key k xs) = sort_key k xs"
  by (rule sort_key_id_if_sorted) (rule sorted_sort_key)

lemma map_sort_key_mset:
  fixes k :: "'a \<Rightarrow> 'b :: linorder"
  assumes "mset xs = mset ys"
  shows "map k (sort_key k xs) = map k (sort_key k ys)"
proof -
  have "sort (map k ys) = map k (sort_key k xs)"
  proof (rule properties_for_sort)
    have "mset (map k (sort_key k xs)) = image_mset k (mset xs)" by simp
    also have "\<dots> = mset (map k ys)" using assms by simp
    finally show "mset (map k (sort_key k xs)) = mset (map k ys)" .
    show "sorted (map k (sort_key k xs))" by (rule sorted_sort_key)
  qed
  moreover have "sort (map k ys) = map k (sort_key k ys)"
  proof (rule properties_for_sort)
    show "mset (map k (sort_key k ys)) = mset (map k ys)" by simp
    show "sorted (map k (sort_key k ys))" by (rule sorted_sort_key)
  qed
  ultimately show ?thesis by simp
qed

lemma sort_key_distinct_mset:
  fixes k :: "'a \<Rightarrow> 'b :: linorder"
  assumes "mset xs = mset ys" "distinct (map k xs)"
  shows "sort_key k xs = sort_key k ys"
proof (rule sort_key_inj_key_eq)
  show "mset xs = mset (sort_key k ys)" using assms(1) by simp
  show "inj_on k (set xs)" using assms(2) by (simp add: distinct_map)
  show "sorted (map k (sort_key k ys))" by (rule sorted_sort_key)
qed

lemma filter_category_id:
  fixes xs ys :: "json list"
  assumes "\<And>key. filter (\<lambda>f. (category_rank (category_of f), id_of f) = key) xs
               = filter (\<lambda>f. (category_rank (category_of f), id_of f) = key) ys"
  shows "filter (\<lambda>f. category_of f = c \<and> id_of f = i) xs
       = filter (\<lambda>f. category_of f = c \<and> id_of f = i) ys"
proof -
  let ?K = "\<lambda>f. (category_rank (category_of f), id_of f) = (category_rank c, i)"
  let ?P = "\<lambda>f. category_of f = c \<and> id_of f = i"
  have "filter ?P zs = filter ?P (filter ?K zs)" for zs :: "json list"
    by (induction zs) auto
  then have "filter ?P xs = filter ?P (filter ?K xs)" "filter ?P ys = filter ?P (filter ?K ys)"
    by blast+
  with assms [of "(category_rank c, i)"] show ?thesis by simp
qed

lemma sorted_valid: 
  assumes "list_all valid_fragment fs"
  shows "list_all valid_fragment (sort_key k fs)"
  using assms by (simp add: list_all_iff)

lemma fragment_key: "sort_key_of (fragment i c) = Inr (category_rank c, JStr i)"
  using valid_sort_key_of [OF valid_fragment_example, of i c] by (simp add: example_fields)

lemma plain_id_string_keyed: "plain_id f \<Longrightarrow> string_keyed f"
  by (cases f) (auto simp: plain_id_def string_keyed_def sort_key_of_obj split: option.splits json.splits)

lemma lacks_id_key: "lacks ''id'' f \<Longrightarrow> snd (str_key f) = []"
  by (cases f) (auto simp: str_key_def sort_key_of_obj)

lemma lacks_category_rank: "lacks ''category'' f \<Longrightarrow> plain_id f \<Longrightarrow> fst (str_key f) = length category_order"
  by (cases f) (auto simp: str_key_def sort_key_of_obj ZZZ_unlisted plain_id_def split: option.splits json.splits)

lemma sort_key_of_total:
  "\<exists>r i. sort_key_of (JObj d) = Inr (r, i) \<and> r \<le> length category_order
     \<and> (map_of d ''category'' = None \<longrightarrow> r = length category_order)
     \<and> (\<forall>c. map_of d ''category'' = Some (JStr c) \<longrightarrow> r = category_rank c)
     \<and> (map_of d ''id'' = None \<longrightarrow> i = JStr [])
     \<and> (\<forall>v. map_of d ''id'' = Some v \<longrightarrow> i = v)"
proof -
  define cat where "cat = (case map_of d ''category'' of None \<Rightarrow> JStr ''ZZZ'' | Some v \<Rightarrow> v)"
  define r where "r = (case list_index category_order cat of Inr i \<Rightarrow> i | Inl e \<Rightarrow> length category_order)"
  define i where "i = (case map_of d ''id'' of None \<Rightarrow> JStr [] | Some v \<Rightarrow> v)"
  have key: "sort_key_of (JObj d) = Inr (r, i)"
    by (simp add: sort_key_of_obj r_def i_def cat_def)
  have le: "r \<le> length category_order"
    unfolding r_def using list_index_bound [of category_order cat]
    by (auto split: sum.splits intro: less_imp_le)
  have none: "map_of d ''category'' = None \<longrightarrow> r = length category_order"
    by (simp add: r_def cat_def ZZZ_unlisted)
  have some: "\<forall>c. map_of d ''category'' = Some (JStr c) \<longrightarrow> r = category_rank c"
    by (simp add: r_def cat_def list_index_rank category_rank_def length_takeWhile_notin)
  have ids: "map_of d ''id'' = None \<longrightarrow> i = JStr []" "\<forall>v. map_of d ''id'' = Some v \<longrightarrow> i = v"
    by (simp_all add: i_def)
  show ?thesis
    by (rule exI [of _ r], rule exI [of _ i], intro conjI) (fact key le none some ids)+
qed

subsection \<open>What the loader returns\<close>

lemma missing_fields_obj:
  "missing_fields fs (JObj kv) = Inr (filter (\<lambda>f. f \<notin> fst ` set kv) fs)"
  by (induction fs) auto

lemma py_eq_JStr_right: "py_eq x (JStr s) = (x = JStr s)"
  by (cases x) auto

lemma missing_fields_arr:
  "missing_fields fs (JArr xs) = Inr (filter (\<lambda>f. JStr f \<notin> set xs) fs)"
  by (induction fs) (auto simp: py_eq_JStr_right)

lemma missing_fields_str:
  "missing_fields fs (JStr s) = Inr (filter (\<lambda>f. \<not> sublist f s) fs)"
  by (induction fs) auto

lemma missing_fields_scalar:
  "num_val d \<noteq> None \<or> d = JNull \<Longrightarrow> missing_fields (f # fs) d = Inl TypeError"
  by (cases d) auto

lemma subscript_not_obj: "(\<forall>kv. d \<noteq> JObj kv) \<Longrightarrow> subscript d k = Inl TypeError"
  by (cases d) auto

lemma missing_required_scalar:
  "num_val d \<noteq> None \<or> d = JNull \<Longrightarrow> missing_fields required_fields d = Inl TypeError"
  unfolding required_fields_def by (rule missing_fields_scalar)

lemma validate_scalar:
  "num_val d \<noteq> None \<or> d = JNull \<Longrightarrow> validate_fragment name d = Inl TypeError"
  by (simp add: validate_fragment_def missing_required_scalar)

lemma validate_arr:
  "validate_fragment name (JArr xs) =
     (if filter (\<lambda>f. JStr f \<notin> set xs) required_fields \<noteq> []
      then Inr ([Missing_required_fields name (filter (\<lambda>f. JStr f \<notin> set xs) required_fields)], None)
      else Inl TypeError)"
  by (simp add: validate_fragment_def missing_fields_arr)

lemma validate_str:
  "validate_fragment name (JStr s) =
     (if filter (\<lambda>f. \<not> sublist f s) required_fields \<noteq> []
      then Inr ([Missing_required_fields name (filter (\<lambda>f. \<not> sublist f s) required_fields)], None)
      else Inl TypeError)"
  by (simp add: validate_fragment_def missing_fields_str)

lemma validate_not_obj:
  assumes "\<forall>kv. d \<noteq> JObj kv"
  shows "validate_fragment name d = Inl TypeError
       \<or> (\<exists>ms. ms \<noteq> [] \<and> validate_fragment name d = Inr ([Missing_required_fields name ms], None))"
proof (cases d)
  case (JObj kv)
  with assms show ?thesis by simp
next
  case (JArr xs)
  show ?thesis unfolding JArr validate_arr by simp
next
  case (JStr s)
  show ?thesis unfolding JStr validate_str by simp
qed (simp_all add: validate_scalar)

lemma map_of_key: "k \<in> fst ` set kv \<Longrightarrow> \<exists>v. map_of kv k = Some v"
  by (induction kv) auto

lemma validate_obj:
  "validate_fragment name (JObj kv) =
     (if filter (\<lambda>f. f \<notin> fst ` set kv) required_fields \<noteq> []
      then Inr ([Missing_required_fields name (filter (\<lambda>f. f \<notin> fst ` set kv) required_fields)], None)
      else if \<not> py_eq (the (map_of kv ''id'')) (JStr (stem name))
      then (if printable (the (map_of kv ''id''))
            then Inr ([Id_mismatch name (the (map_of kv ''id''))], Some (JObj kv))
            else Inl UnicodeEncodeError)
      else Inr ([], Some (JObj kv)))"
proof (cases "filter (\<lambda>f. f \<notin> fst ` set kv) required_fields = []")
  case True
  then have "\<forall>f \<in> set required_fields. f \<in> fst ` set kv"
    by (simp add: filter_empty_conv)
  moreover have "''id'' \<in> set required_fields"
    by (simp add: required_fields_def)
  ultimately have "''id'' \<in> fst ` set kv"
    by (rule bspec)
  then have "\<exists>v. map_of kv ''id'' = Some v"
    by (rule map_of_key)
  then obtain v where "map_of kv ''id'' = Some v" ..
  with True show ?thesis
    by (simp add: validate_fragment_def missing_fields_obj)
next
  case False
  then show ?thesis
    by (simp add: validate_fragment_def missing_fields_obj)
qed

lemma load_fragment_Some:
  assumes "load_fragment name r = (ls, Some d)"
  shows "r = Parsed d \<and> (\<exists>kv. d = JObj kv \<and> set required_fields \<subseteq> fst ` set kv)"
proof (cases r)
  case (Raised e)
  with assms show ?thesis by (cases e) auto
next
  case (Parsed data)
  show ?thesis
  proof (cases "\<exists>kv. data = JObj kv")
    case True
    then obtain kv where kv: "data = JObj kv" by blast
    from assms Parsed kv have "filter (\<lambda>f. f \<notin> fst ` set kv) required_fields = []"
      by (auto simp: validate_obj split: if_splits)
    then have "set required_fields \<subseteq> fst ` set kv"
      by (auto simp: filter_empty_conv)
    moreover from assms Parsed kv have "d = data"
      by (auto simp: validate_obj split: if_splits)
    ultimately show ?thesis using Parsed kv by simp
  next
    case False
    then have "\<forall>kv. data \<noteq> JObj kv" by simp
    from validate_not_obj [OF this, of name] assms Parsed show ?thesis
      by auto
  qed
qed

lemma load_fragment_not_obj:
  "(\<forall>kv. d \<noteq> JObj kv) \<Longrightarrow> snd (load_fragment name (Parsed d)) = None"
  using validate_not_obj [of d name] by auto

lemma rfind_dot_append_nodot:
  "CHR ''.'' \<notin> set ys \<Longrightarrow> rfind_dot (xs @ CHR ''.'' # ys) = Some (length xs)"
proof (induction xs)
  case Nil
  have "rfind_dot ys = None" using Nil by (induction ys) auto
  then show ?case by simp
next
  case (Cons a xs)
  then show ?case by simp
qed

lemma stem_json: "base \<noteq> [] \<Longrightarrow> stem (base @ ''.json'') = base"
  using rfind_dot_append_nodot [of "''json''" base] by (simp add: stem_def)

lemma load_fragment_obj:
  "load_fragment name (Parsed (JObj kv)) =
     (if filter (\<lambda>f. f \<notin> fst ` set kv) required_fields \<noteq> []
      then ([Missing_required_fields name (filter (\<lambda>f. f \<notin> fst ` set kv) required_fields)], None)
      else if \<not> py_eq (the (map_of kv ''id'')) (JStr (stem name))
      then (if printable (the (map_of kv ''id''))
            then ([Id_mismatch name (the (map_of kv ''id''))], Some (JObj kv))
            else ([Load_error name UnicodeEncodeError], None))
      else ([], Some (JObj kv)))"
  by (simp add: validate_obj)

lemma missing_nonempty:
  "filter (\<lambda>f. f \<notin> fst ` set kv) required_fields \<noteq> [] \<longleftrightarrow> \<not> set required_fields \<subseteq> fst ` set kv"
  by (auto simp: filter_empty_conv)


lemma load_fragment_unprintable:
  assumes "base \<noteq> []" "set required_fields \<subseteq> fst ` set kv" "map_of kv ''id'' = Some v"
    "v \<noteq> JStr base" "\<not> printable v"
  shows "load_fragment (base @ ''.json'') (Parsed (JObj kv))
       = ([Load_error (base @ ''.json'') UnicodeEncodeError], None)"
proof -
  have "filter (\<lambda>f. f \<notin> fst ` set kv) required_fields = []"
    using assms(2) by (auto simp: filter_empty_conv)
  moreover have "\<not> py_eq v (JStr (stem (base @ ''.json'')))"
    using assms(1,4) by (simp add: stem_json py_eq_JStr_right)
  ultimately show ?thesis
    using assms(3,5) by (subst load_fragment_obj) simp
qed

lemma load_fragment_not_obj_line:
  assumes "\<forall>kv. d \<noteq> JObj kv"
  shows "\<exists>l. load_fragment name (Parsed d) = ([l], None) \<and> tag_of l = ERROR \<and> file_of l = Some name"
  using validate_not_obj [OF assms, of name] by auto

lemma missing_all_names: "missing_fields required_fields (JArr (map JStr required_fields)) = Inr []"
  by (simp add: missing_fields_arr filter_empty_conv)

lemma load_fragment_all_names:
  "load_fragment name (Parsed (JArr (map JStr required_fields))) = ([Load_error name TypeError], None)"
  by (simp add: validate_fragment_def missing_all_names)

lemma validate_lines:
  "validate_fragment name d = Inr (ls, opt) \<Longrightarrow> \<forall>l \<in> set ls. file_of l = Some name"
  by (auto simp: validate_fragment_def split: sum.splits if_splits)

lemma load_fragment_lines: "\<forall>l \<in> set (fst (load_fragment name r)). file_of l = Some name"
proof (cases r)
  case (Raised e)
  then show ?thesis by (cases e) simp_all
next
  case (Parsed d)
  show ?thesis
  proof (cases "validate_fragment name d")
    case (Inl e)
    with Parsed show ?thesis by simp
  next
    case (Inr p)
    obtain ls opt where "p = (ls, opt)" by (cases p)
    with Inr Parsed validate_lines [of name d ls opt] show ?thesis by simp
  qed
qed

subsection \<open>What the collector returns\<close>

lemma json_files_candidate:
  "json_files es = sort_key fst (filter (\<lambda>f. candidate (fst f)) es)"
  by (simp add: json_files_def candidate_def conj_commute)

lemma loaded_Some:
  assumes "loaded f = Some d"
  shows "snd f = Parsed d \<and> (\<exists>kv. d = JObj kv \<and> set required_fields \<subseteq> fst ` set kv)"
proof -
  from assms have "load_fragment (fst f) (snd f) = (fst (load_fragment (fst f) (snd f)), Some d)"
    by (simp add: loaded_def prod_eq_iff)
  then show ?thesis by (rule load_fragment_Some)
qed

lemma required_name: "''name'' \<in> set required_fields"
  by (simp add: required_fields_def)

lemma loaded_name:
  assumes "loaded f = Some d"
  shows "truthy d \<and> (\<exists>v. subscript d ''name'' = Inr v)"
proof -
  from loaded_Some [OF assms] obtain kv where
    d: "d = JObj kv" and sub: "set required_fields \<subseteq> fst ` set kv"
    by auto
  from sub required_name have k: "''name'' \<in> fst ` set kv" by (rule subsetD)
  then have "\<exists>v. map_of kv ''name'' = Some v" by (rule map_of_key)
  then obtain v where v: "map_of kv ''name'' = Some v" ..
  from k have "kv \<noteq> []" by auto
  with d v show ?thesis by simp
qed

lemma load_loop_accepted:
  assumes "loaded f = Some d" "printable_name d"
  shows "load_loop (f # fs) (out, acc)
         = load_loop fs (out @ lines_of f, acc @ [d])"
proof -
  obtain name r where f: "f = (name, r)" by (cases f)
  obtain ls opt where lf: "load_fragment name r = (ls, opt)" by (cases "load_fragment name r")
  with assms(1) f have opt: "opt = Some d" by (simp add: loaded_def)
  from loaded_name [OF assms(1)] obtain v where t: "truthy d" and v: "subscript d ''name'' = Inr v"
    by auto
  from assms(2) v have "printable v" by (simp add: printable_name_def)
  with f lf opt t v show ?thesis by (simp add: lines_of_def loaded_def)
qed

lemma load_loop_stopped:
  assumes "loaded f = Some d" "\<not> printable_name d"
  shows "load_loop (f # fs) (out, acc)
         = Inl (out @ fst (load_fragment (fst f) (snd f)), UnicodeEncodeError)"
proof -
  obtain name r where f: "f = (name, r)" by (cases f)
  obtain ls opt where lf: "load_fragment name r = (ls, opt)" by (cases "load_fragment name r")
  with assms(1) f have opt: "opt = Some d" by (simp add: loaded_def)
  from loaded_name [OF assms(1)] obtain v where t: "truthy d" and v: "subscript d ''name'' = Inr v"
    by auto
  from assms(2) v have "\<not> printable v" by (simp add: printable_name_def)
  with f lf opt t v show ?thesis by simp
qed

lemma load_loop_rejected:
  assumes "loaded f = None"
  shows "load_loop (f # fs) (out, acc) = load_loop fs (out @ fst (load_fragment (fst f) (snd f)), acc)"
proof -
  obtain name r where f: "f = (name, r)" by (cases f)
  obtain ls opt where lf: "load_fragment name r = (ls, opt)" by (cases "load_fragment name r")
  with assms f have "opt = None" by (simp add: loaded_def)
  with f lf show ?thesis by simp
qed

lemma lines_of_rejected: "loaded f = None \<Longrightarrow> lines_of f = fst (load_fragment (fst f) (snd f))"
  by (simp add: lines_of_def)

lemma accepted_Cons:
  "accepted (f # fs) = (case loaded f of None \<Rightarrow> accepted fs | Some d \<Rightarrow> d # accepted fs)"
  unfolding accepted_def by simp

lemma load_loop_eq:
  assumes "list_all printable_name (accepted fs)"
  shows "load_loop fs (out, acc) = Inr (out @ concat (map lines_of fs), acc @ accepted fs)"
  using assms
proof (induction fs arbitrary: out acc)
  case Nil
  show ?case by (simp add: accepted_def)
next
  case (Cons f fs)
  show ?case
  proof (cases "loaded f")
    case None
    with Cons.prems have "list_all printable_name (accepted fs)" by (simp add: accepted_Cons)
    then have "load_loop fs (out @ lines_of f, acc)
        = Inr ((out @ lines_of f) @ concat (map lines_of fs), acc @ accepted fs)"
      by (rule Cons.IH)
    with None show ?thesis
      by (simp add: load_loop_rejected lines_of_rejected accepted_Cons del: load_loop.simps)
  next
    case (Some d)
    with Cons.prems have p: "printable_name d" and rest: "list_all printable_name (accepted fs)"
      by (simp_all add: accepted_Cons)
    from rest have "load_loop fs (out @ lines_of f, acc @ [d])
        = Inr ((out @ lines_of f) @ concat (map lines_of fs), (acc @ [d]) @ accepted fs)"
      by (rule Cons.IH)
    with Some p show ?thesis
      by (simp add: load_loop_accepted accepted_Cons del: load_loop.simps)
  qed
qed

lemma load_loop_Inl:
  assumes "\<not> list_all printable_name (accepted fs)"
  shows "\<exists>ls. load_loop fs (out, acc) = Inl (ls, UnicodeEncodeError)
              \<and> set ls \<subseteq> set out \<union> set (concat (map lines_of fs))"
  using assms
proof (induction fs arbitrary: out acc)
  case Nil
  then show ?case by (simp add: accepted_def)
next
  case (Cons f fs)
  show ?case
  proof (cases "loaded f")
    case None
    with Cons.prems have "\<not> list_all printable_name (accepted fs)" by (simp add: accepted_Cons)
    then have "\<exists>ls. load_loop fs (out @ lines_of f, acc) = Inl (ls, UnicodeEncodeError)
              \<and> set ls \<subseteq> set (out @ lines_of f) \<union> set (concat (map lines_of fs))"
      by (rule Cons.IH)
    then obtain ls where l: "load_loop fs (out @ lines_of f, acc) = Inl (ls, UnicodeEncodeError)"
      and s: "set ls \<subseteq> set (out @ lines_of f) \<union> set (concat (map lines_of fs))"
      by auto
    from None l have "load_loop (f # fs) (out, acc) = Inl (ls, UnicodeEncodeError)"
      by (simp add: load_loop_rejected lines_of_rejected del: load_loop.simps)
    moreover from s have "set ls \<subseteq> set out \<union> set (concat (map lines_of (f # fs)))"
      by auto
    ultimately show ?thesis by (intro exI [of _ ls] conjI)
  next
    case (Some d)
    show ?thesis
    proof (cases "printable_name d")
      case True
      with Some Cons.prems have "\<not> list_all printable_name (accepted fs)"
        by (simp add: accepted_Cons)
      then have "\<exists>ls. load_loop fs (out @ lines_of f, acc @ [d]) = Inl (ls, UnicodeEncodeError)
              \<and> set ls \<subseteq> set (out @ lines_of f) \<union> set (concat (map lines_of fs))"
        by (rule Cons.IH)
      then obtain ls where
        l: "load_loop fs (out @ lines_of f, acc @ [d]) = Inl (ls, UnicodeEncodeError)"
        and s: "set ls \<subseteq> set (out @ lines_of f) \<union> set (concat (map lines_of fs))"
        by auto
      from Some True l have "load_loop (f # fs) (out, acc) = Inl (ls, UnicodeEncodeError)"
        by (simp add: load_loop_accepted del: load_loop.simps)
      moreover from s have "set ls \<subseteq> set out \<union> set (concat (map lines_of (f # fs)))"
        by auto
      ultimately show ?thesis by (intro exI [of _ ls] conjI)
    next
      case False
      with Some have "load_loop (f # fs) (out, acc)
          = Inl (out @ fst (load_fragment (fst f) (snd f)), UnicodeEncodeError)"
        by (rule load_loop_stopped)
      moreover have "set (out @ fst (load_fragment (fst f) (snd f)))
          \<subseteq> set out \<union> set (concat (map lines_of (f # fs)))"
        by (auto simp: lines_of_def)
      ultimately show ?thesis
        by (intro exI [of _ "out @ fst (load_fragment (fst f) (snd f))"] conjI)
    qed
  qed
qed

lemma load_loop_Inr:
  assumes "load_loop fs (out, acc) = Inr (ls, frs)"
  shows "list_all printable_name (accepted fs) \<and> ls = out @ concat (map lines_of fs)
         \<and> frs = acc @ accepted fs"
proof -
  have p: "list_all printable_name (accepted fs)"
  proof (rule ccontr)
    assume "\<not> list_all printable_name (accepted fs)"
    from load_loop_Inl [OF this, of out acc] assms show False by auto
  qed
  from load_loop_eq [OF p, of out acc] assms p show ?thesis by simp
qed

lemma load_loop_error:
  assumes "load_loop fs (out, acc) = Inl (ls, e)"
  shows "\<not> list_all printable_name (accepted fs) \<and> e = UnicodeEncodeError
         \<and> set ls \<subseteq> set out \<union> set (concat (map lines_of fs))"
proof -
  have p: "\<not> list_all printable_name (accepted fs)"
  proof
    assume "list_all printable_name (accepted fs)"
    from load_loop_eq [OF this, of out acc] assms show False by simp
  qed
  from load_loop_Inl [OF p, of out acc] assms p show ?thesis by auto
qed

lemma collect_fragments_Some:
  assumes "list_all printable_name (accepted (json_files es))"
  shows "collect_fragments (Some es) =
     Inr ([Scanning, Found (length (json_files es))] @ concat (map lines_of (json_files es)),
          accepted (json_files es))"
  using load_loop_eq [OF assms, of "[Scanning, Found (length (json_files es))]" "[]"]
  by (simp add: collect_fragments_def)

lemma collect_fragments_Inr:
  assumes "collect_fragments (Some es) = Inr (ls, fs)"
  shows "list_all printable_name (accepted (json_files es))
         \<and> ls = [Scanning, Found (length (json_files es))] @ concat (map lines_of (json_files es))
         \<and> fs = accepted (json_files es)"
proof -
  from assms have "load_loop (json_files es) ([Scanning, Found (length (json_files es))], [])
      = Inr (ls, fs)"
    by (simp add: collect_fragments_def)
  from load_loop_Inr [OF this] show ?thesis by simp
qed

lemma collect_fragments_Inl:
  assumes "collect_fragments dir = Inl (ls, e)"
  shows "\<exists>es. dir = Some es \<and> \<not> list_all printable_name (accepted (json_files es))
         \<and> e = UnicodeEncodeError
         \<and> set ls \<subseteq> set ([Scanning, Found (length (json_files es))]
                            @ concat (map lines_of (json_files es)))"
proof (cases dir)
  case None
  with assms show ?thesis by (simp add: collect_fragments_def)
next
  case (Some es)
  with assms have "load_loop (json_files es) ([Scanning, Found (length (json_files es))], [])
      = Inl (ls, e)"
    by (simp add: collect_fragments_def)
  from load_loop_error [OF this] Some show ?thesis by simp
qed

lemma collect_fragments_None: "collect_fragments None = Inr ([Source_dir_not_found], [])"
  by (simp add: collect_fragments_def)

lemma json_files_perm:
  assumes "distinct (map fst es)" "mset es = mset es'"
  shows "json_files es = json_files es'"
proof -
  let ?P = "\<lambda>f :: string \<times> read_result. candidate (fst f)"
  have "mset (filter ?P es) = mset (filter ?P es')"
    using assms(2) by simp
  moreover have "inj_on fst (set (filter ?P es))"
    using assms(1) by (auto simp: distinct_map intro: inj_on_subset)
  moreover have "sorted (map fst (sort_key fst (filter ?P es')))"
    by (rule sorted_sort_key)
  moreover have "mset (sort_key fst (filter ?P es')) = mset (filter ?P es')"
    by simp
  ultimately have "sort_key fst (filter ?P es) = sort_key fst (filter ?P es')"
    by (intro sort_key_inj_key_eq) simp_all
  then show ?thesis by (simp add: json_files_candidate)
qed

lemma json_files_excluded:
  "filter (\<lambda>f. candidate (fst f)) es = filter (\<lambda>f. candidate (fst f)) es' \<Longrightarrow>
   json_files es = json_files es'"
  by (simp add: json_files_candidate)

lemma set_json_files: "set (json_files es) = {f \<in> set es. candidate (fst f)}"
  by (auto simp: json_files_candidate)

lemma sorted_json_files: "sorted (map fst (json_files es))"
  unfolding json_files_candidate by (rule sorted_sort_key)

lemma lines_of_file: "\<forall>l \<in> set (lines_of f). file_of l = Some (fst f)"
  using load_fragment_lines [of "fst f" "snd f"]
  by (auto simp: lines_of_def split: option.splits sum.splits)

lemma lines_files:
  assumes "l \<in> set ([Scanning, Found k] @ concat (map lines_of (json_files es)))"
    "file_of l = Some n"
  shows "n \<in> fst ` set es \<and> candidate n"
proof -
  from assms have "l \<in> set (concat (map lines_of (json_files es)))"
    by auto
  then obtain f where f: "f \<in> set (json_files es)" and l: "l \<in> set (lines_of f)"
    by auto
  from l lines_of_file assms(2) have "fst f = n" by fastforce
  with f show ?thesis by (auto simp: set_json_files)
qed

lemma collect_lines_files:
  assumes "collect_fragments (Some es) = Inr (ls, fs)" "l \<in> set ls" "file_of l = Some n"
  shows "n \<in> fst ` set es \<and> candidate n"
proof -
  from collect_fragments_Inr [OF assms(1)] assms(2)
  have "l \<in> set ([Scanning, Found (length (json_files es))]
               @ concat (map lines_of (json_files es)))"
    by simp
  then show ?thesis using assms(3) by (rule lines_files)
qed

lemma collect_error_files:
  assumes "collect_fragments (Some es) = Inl (ls, e)" "l \<in> set ls" "file_of l = Some n"
  shows "n \<in> fst ` set es \<and> candidate n"
proof -
  from collect_fragments_Inl [OF assms(1)] assms(2)
  have "l \<in> set ([Scanning, Found (length (json_files es))]
               @ concat (map lines_of (json_files es)))"
    by auto
  then show ?thesis using assms(3) by (rule lines_files)
qed

lemma set_accepted: "set (accepted fs) = {d. \<exists>f \<in> set fs. loaded f = Some d}"
  unfolding accepted_def by (induction fs) (auto split: option.splits)

lemma collected_objects:
  assumes "collect_fragments dir = Inr (ls, fs)" "f \<in> set fs"
  shows "\<exists>kv. f = JObj kv \<and> set required_fields \<subseteq> fst ` set kv"
proof (cases dir)
  case None
  with assms show ?thesis by (simp add: collect_fragments_None)
next
  case (Some es)
  with assms(1) have "collect_fragments (Some es) = Inr (ls, fs)" by simp
  from collect_fragments_Inr [OF this] assms(2) have "f \<in> set (accepted (json_files es))"
    by simp
  then obtain e where "loaded e = Some f" by (auto simp: set_accepted)
  from loaded_Some [OF this] show ?thesis by simp
qed

lemma collect_fragments_cases:
  "(\<exists>ls fs. collect_fragments dir = Inr (ls, fs))
   \<or> (\<exists>ls. collect_fragments dir = Inl (ls, UnicodeEncodeError))"
proof (cases "collect_fragments dir")
  case (Inl a)
  obtain ls e where a: "a = (ls, e)" by (cases a)
  with Inl have c: "collect_fragments dir = Inl (ls, e)" by simp
  from collect_fragments_Inl [OF c] have "e = UnicodeEncodeError" by auto
  with c show ?thesis by auto
next
  case (Inr b)
  obtain ls fs where "b = (ls, fs)" by (cases b)
  with Inr show ?thesis by auto
qed



lemma collect_fragments_perm:
  assumes "distinct (map fst es)" "mset es' = mset es"
  shows "collect_fragments (Some es') = collect_fragments (Some es)"
proof -
  have "json_files es = json_files es'"
    using assms(1) assms(2) [symmetric] by (rule json_files_perm)
  then show ?thesis by (simp add: collect_fragments_def)
qed

lemma collect_fragments_excluded:
  assumes "filter (\<lambda>f. candidate (fst f)) es' = filter (\<lambda>f. candidate (fst f)) es"
  shows "collect_fragments (Some es') = collect_fragments (Some es)"
proof -
  have "json_files es' = json_files es"
    using assms by (rule json_files_excluded)
  then show ?thesis by (simp add: collect_fragments_def)
qed

lemma candidate_simps:
  "candidate ''openai.json''" "candidate ''docker.json''" "candidate ''broken.json''"
  "\<not> candidate ''_draft.json''" "\<not> candidate ''notes.txt''"
  by (simp_all add: candidate_def suffix_to_prefix)

lemma json_files_source_dir:
  "json_files source_dir =
     [(''broken.json'', Parsed no_variables), (''docker.json'', Parsed docker),
      (''openai.json'', Parsed openai)]"
  by (simp add: json_files_candidate source_dir_def candidate_simps)

lemma load_examples:
  "load_fragment ''broken.json'' (Parsed no_variables)
     = ([Missing_required_fields ''broken.json'' [''variables'']], None)"
  "load_fragment ''docker.json'' (Parsed docker) = ([], Some docker)"
  "load_fragment ''openai.json'' (Parsed openai) = ([], Some openai)"
  by (simp_all add: no_variables_def docker_def openai_def fragment_def validate_fragment_def
      required_fields_def stem_def)

lemma collect_source_dir:
  "collect_fragments (Some source_dir) =
     Inr ([Scanning, Found 3, Missing_required_fields ''broken.json'' [''variables''],
           Fragment_ok ''docker.json'' (JStr ''docker''),
           Fragment_ok ''openai.json'' (JStr ''openai'')],
          [docker, openai])"
proof -
  have a: "accepted (json_files source_dir) = [docker, openai]"
    unfolding json_files_source_dir
    by (simp add: accepted_Cons loaded_def load_examples accepted_def del: load_fragment.simps)
  have "list_all printable_name (accepted (json_files source_dir))"
    unfolding a by (simp add: printable_name_def docker_def openai_def fragment_def)
  from collect_fragments_Some [OF this] show ?thesis
    unfolding a unfolding json_files_source_dir
    by (simp add: lines_of_def loaded_def load_examples del: load_fragment.simps)
      (simp add: docker_def openai_def fragment_def)
qed

lemma filter_source_dir:
  "filter (\<lambda>f. suffix ''.json'' (fst f) \<and> \<not> prefix ''_'' (fst f)) source_dir'
   = filter (\<lambda>f. suffix ''.json'' (fst f) \<and> \<not> prefix ''_'' (fst f))
       [(''broken.json'', Parsed no_variables), (''docker.json'', Parsed docker),
        (''openai.json'', Parsed openai)]"
  by (simp add: source_dir'_def suffix_to_prefix)

lemma perm_source_dir:
  "mset [(''broken.json'', Parsed no_variables), (''docker.json'', Parsed docker),
        (''openai.json'', Parsed openai)]
   = mset (json_files source_dir)"
  by (simp add: json_files_source_dir)

subsection \<open>What a run writes\<close>

lemma main_Inl:
  "collect_fragments dir = Inl (ls, e) \<Longrightarrow>
   main dumps a today dir =
     \<lparr>console = banner @ ls, touched = False, output_file = None, ending = Uncaught e\<rparr>"
  by (simp add: main_def)

lemma main_empty:
  "collect_fragments dir = Inr (ls, []) \<Longrightarrow>
   main dumps a today dir =
     \<lparr>console = banner @ ls @ [No_valid_fragments], touched = False, output_file = None,
      ending = SysExit 1\<rparr>"
  by (simp add: main_def)

lemma main_validate:
  "collect_fragments dir = Inr (ls, fs) \<Longrightarrow> fs \<noteq> [] \<Longrightarrow> validate a \<Longrightarrow>
   main dumps a today dir =
     \<lparr>console = banner @ ls @ [Summary (length fs), Validation_complete], touched = False,
      output_file = None, ending = SysExit 0\<rparr>"
  by (simp add: main_def)

lemma main_unsorted:
  "collect_fragments dir = Inr (ls, fs) \<Longrightarrow> fs \<noteq> [] \<Longrightarrow> \<not> validate a \<Longrightarrow>
   sort_fragments fs = Inl e \<Longrightarrow>
   main dumps a today dir =
     \<lparr>console = banner @ ls @ [Summary (length fs)], touched = False, output_file = None,
      ending = Uncaught e\<rparr>"
  by (simp add: main_def)

lemma main_dry_run:
  "collect_fragments dir = Inr (ls, fs) \<Longrightarrow> fs \<noteq> [] \<Longrightarrow> \<not> validate a \<Longrightarrow>
   sort_fragments fs = Inr out \<Longrightarrow> dry_run a \<Longrightarrow>
   main dumps a today dir =
     (if encodable (preview (dumps (generate_profile today out))) then
        \<lparr>console = banner @ ls @
           [Summary (length fs), Would_generate, Output_path, Templates_count (length out),
            Size (py_len (dumps (generate_profile today out))), Preview_header,
            Preview (preview (dumps (generate_profile today out))), Rule],
         touched = False, output_file = None, ending = Returned\<rparr>
      else
        \<lparr>console = banner @ ls @
           [Summary (length fs), Would_generate, Output_path, Templates_count (length out),
            Size (py_len (dumps (generate_profile today out))), Preview_header],
         touched = False, output_file = None, ending = Uncaught UnicodeEncodeError\<rparr>)"
  by (simp add: main_def Let_def)

lemma main_write:
  "collect_fragments dir = Inr (ls, fs) \<Longrightarrow> fs \<noteq> [] \<Longrightarrow> \<not> validate a \<Longrightarrow>
   sort_fragments fs = Inr out \<Longrightarrow> \<not> dry_run a \<Longrightarrow>
   main dumps a today dir =
     (if encodable (dumps (generate_profile today out)) then
        \<lparr>console = banner @ ls @
           [Summary (length fs), Generated, Templates_count (length out),
            Size (py_len (dumps (generate_profile today out))), Rule],
         touched = True,
         output_file = Some (dumps (generate_profile today out) @ [CHR 0x0A]),
         ending = Returned\<rparr>
      else
        \<lparr>console = banner @ ls @ [Summary (length fs)], touched = True, output_file = None,
         ending = Uncaught UnicodeEncodeError\<rparr>)"
  by (simp add: main_def Let_def)





lemma main_written:
  assumes "output_file (main dumps a today dir) = Some written"
  shows "\<exists>ls fs sorted. collect_fragments dir = Inr (ls, fs) \<and> fs \<noteq> []
           \<and> sort_fragments fs = Inr sorted
           \<and> written = dumps (generate_profile today sorted) @ [CHR 0x0A]
           \<and> \<not> validate a \<and> \<not> dry_run a"
proof (cases "collect_fragments dir")
  case (Inl p)
  obtain ls e where "p = (ls, e)" by (cases p)
  with Inl have c: "collect_fragments dir = Inl (ls, e)" by simp
  with assms show ?thesis by (simp add: main_Inl)
next
  case (Inr p)
  obtain ls fs where "p = (ls, fs)" by (cases p)
  with Inr have c: "collect_fragments dir = Inr (ls, fs)" by simp
  have ne: "fs \<noteq> []"
    using assms c by (auto simp: main_empty)
  have nv: "\<not> validate a"
    using assms c ne by (auto simp: main_validate)
  show ?thesis
  proof (cases "sort_fragments fs")
    case (Inl e)
    with assms c ne nv show ?thesis by (simp add: main_unsorted)
  next
    case (Inr sorted)
    have nd: "\<not> dry_run a"
    proof
      assume "dry_run a"
      with assms c ne nv Inr show False by (simp add: main_dry_run split: if_splits)
    qed
    with assms c ne nv Inr have "written = dumps (generate_profile today sorted) @ [CHR 0x0A]"
      by (simp add: main_write split: if_splits)
    with c ne nv nd Inr show ?thesis by simp
  qed
qed

lemma main_templates:
  assumes "output_file (main dumps a today dir) = Some written"
  shows "\<exists>ls fs sorted. collect_fragments dir = Inr (ls, fs)
           \<and> written = dumps (generate_profile today sorted) @ [CHR 0x0A] \<and> set sorted = set fs"
proof -
  from main_written [OF assms] obtain ls fs sorted where
    c: "collect_fragments dir = Inr (ls, fs)" and s: "sort_fragments fs = Inr sorted"
    and t: "written = dumps (generate_profile today sorted) @ [CHR 0x0A]"
    by blast
  from s have "mset sorted = mset fs" by (rule sort_fragments_mset)
  then have "set sorted = set fs" by (rule mset_eq_setD)
  with c t show ?thesis by blast
qed

lemma revalidate:
  assumes "set required_fields \<subseteq> fst ` set kv"
  shows "missing_fields required_fields (JObj kv) = Inr []
       \<and> (printable_id (JObj kv) \<longrightarrow>
            snd (load_fragment name (Parsed (JObj kv))) = Some (JObj kv))"
proof -
  have e: "filter (\<lambda>f. f \<notin> fst ` set kv) required_fields = []"
    using assms by (auto simp: filter_empty_conv)
  then have "missing_fields required_fields (JObj kv) = Inr []"
    by (simp add: missing_fields_obj)
  moreover have "snd (load_fragment name (Parsed (JObj kv))) = Some (JObj kv)"
    if "printable_id (JObj kv)"
  proof -
    from that have "printable (the (map_of kv ''id''))"
      by (auto simp: printable_id_def split: option.splits)
    with e show ?thesis by (subst load_fragment_obj) simp
  qed
  ultimately show ?thesis by simp
qed

lemma main_written_valid:
  assumes "output_file (main dumps a today dir) = Some written"
  shows "\<exists>sorted. written = dumps (generate_profile today sorted) @ [CHR 0x0A]
           \<and> (\<forall>t \<in> set sorted. missing_fields required_fields t = Inr []
                 \<and> (\<forall>name. printable_id t \<longrightarrow> snd (load_fragment name (Parsed t)) = Some t))"
proof -
  from main_templates [OF assms] obtain ls fs sorted where
    c: "collect_fragments dir = Inr (ls, fs)"
    and t: "written = dumps (generate_profile today sorted) @ [CHR 0x0A]"
    and s: "set sorted = set fs"
    by blast
  have "missing_fields required_fields f = Inr []
        \<and> (\<forall>name. printable_id f \<longrightarrow> snd (load_fragment name (Parsed f)) = Some f)"
    if "f \<in> set sorted" for f
  proof -
    from that s have "f \<in> set fs" by simp
    from collected_objects [OF c this] obtain kv where
      "f = JObj kv" "set required_fields \<subseteq> fst ` set kv" by blast
    with revalidate show ?thesis by blast
  qed
  with t show ?thesis by blast
qed

lemma main_perm:
  assumes "distinct (map fst es)" "mset es' = mset es"
  shows "main dumps a today (Some es') = main dumps a today (Some es)"
proof -
  have "collect_fragments (Some es') = collect_fragments (Some es)"
    using assms by (rule collect_fragments_perm)
  then show ?thesis by (simp add: main_def)
qed

lemma encodable_keys_only: "encodable (keys_only (generate_profile today fs))"
  by (simp add: keys_only_def generate_profile_def)

lemma sort_docker_openai: "sort_fragments [docker, openai] = Inr [openai, docker]"
  using sort_devops_ai [of docker openai]
  by (simp add: docker_def openai_def valid_fragment_example example_fields)

lemma main_source_dir:
  "main keys_only generate a_day (Some source_dir) =
     \<lparr>console = banner @
        [Scanning, Found 3, Missing_required_fields ''broken.json'' [''variables''],
         Fragment_ok ''docker.json'' (JStr ''docker''),
         Fragment_ok ''openai.json'' (JStr ''openai'')] @
        [Summary 2, Generated, Templates_count 2,
         Size (py_len (keys_only (generate_profile a_day [openai, docker]))), Rule],
      touched = True,
      output_file = Some (keys_only (generate_profile a_day [openai, docker]) @ [CHR 0x0A]),
      ending = Returned\<rparr>"
proof -
  have ne: "[docker, openai] \<noteq> []" by simp
  have nv: "\<not> validate generate" and nd: "\<not> dry_run generate"
    by (simp_all add: generate_def)
  show ?thesis
    unfolding main_write [OF collect_source_dir ne nv sort_docker_openai nd]
    by (simp add: encodable_keys_only)
qed













subsection \<open>The date string\<close>

lemma digit_char: "k < 10 \<Longrightarrow> of_char (''0123456789'' ! k) = (48 + k :: nat)"
proof -
  assume "k < 10"
  then have "k \<in> {0, 1, 2, 3, 4, 5, 6, 7, 8, 9}" by auto
  then show ?thesis by auto
qed

lemma digit_val: "of_char (digit n) - 48 = n mod 10"
  by (simp add: digit_def digit_char)

lemma digit_in: "digit n \<in> set ''0123456789''"
  unfolding digit_def by (rule nth_mem) simp

lemma decimal_Nil: "decimal [] = 0"
  by (simp only: decimal_def foldl.simps)

lemma decimal_snoc: "decimal (s @ [digit n]) = 10 * decimal s + n mod 10"
  by (simp only: decimal_def foldl_append foldl.simps digit_val)

lemma split_last_digit: "10 * (m div 10) + m mod 10 = (m :: nat)"
  by simp

lemma decimal_2:
  assumes "n < 100"
  shows "decimal [digit (n div 10), digit n] = n"
proof -
  have "decimal [digit (n div 10), digit n] = 10 * decimal [digit (n div 10)] + n mod 10"
    using decimal_snoc [of "[digit (n div 10)]" n] by (simp only: append.simps)
  also have "decimal [digit (n div 10)] = 10 * decimal [] + n div 10 mod 10"
    using decimal_snoc [of "[]" "n div 10"] by (simp only: append.simps)
  finally have "decimal [digit (n div 10), digit n] = 10 * (n div 10 mod 10) + n mod 10"
    by (simp only: decimal_Nil mult_0_right add_0)
  moreover have "n div 10 mod 10 = n div 10"
    using assms by (intro mod_less) simp
  ultimately show ?thesis
    by (simp only: split_last_digit)
qed

lemma decimal_4:
  assumes "n < 10000"
  shows "decimal [digit (n div 1000), digit (n div 100), digit (n div 10), digit n] = n"
proof -
  let ?a = "digit (n div 1000)" and ?b = "digit (n div 100)" and ?c = "digit (n div 10)"
  have "decimal [?a, ?b, ?c, digit n] = 10 * decimal [?a, ?b, ?c] + n mod 10"
    using decimal_snoc [of "[?a, ?b, ?c]" n] by (simp only: append.simps)
  also have "decimal [?a, ?b, ?c] = 10 * decimal [?a, ?b] + n div 10 mod 10"
    using decimal_snoc [of "[?a, ?b]" "n div 10"] by (simp only: append.simps)
  also have "decimal [?a, ?b] = 10 * decimal [?a] + n div 100 mod 10"
    using decimal_snoc [of "[?a]" "n div 100"] by (simp only: append.simps)
  also have "decimal [?a] = 10 * decimal [] + n div 1000 mod 10"
    using decimal_snoc [of "[]" "n div 1000"] by (simp only: append.simps)
  finally have e: "decimal [?a, ?b, ?c, digit n]
      = 10 * (10 * (10 * (n div 1000 mod 10) + n div 100 mod 10) + n div 10 mod 10) + n mod 10"
    by (simp only: decimal_Nil mult_0_right add_0)
  have "n div 1000 mod 10 = n div 1000"
    using assms by (intro mod_less) simp
  moreover have "n div 1000 = n div 100 div 10"
    using div_mult2_eq [of n 100 10] by simp
  moreover have "n div 100 = n div 10 div 10"
    using div_mult2_eq [of n 10 10] by simp
  ultimately have "10 * (n div 1000 mod 10) + n div 100 mod 10 = n div 100"
    "10 * (n div 100) + n div 10 mod 10 = n div 10"
    by (simp_all only: split_last_digit)
  with e show ?thesis
    by (simp only: split_last_digit)
qed

lemma strftime_form:
  assumes "valid_date d"
  shows "\<exists>y m dd. strftime_Ymd d = y @ ''-'' @ m @ ''-'' @ dd
      \<and> length y = 4 \<and> length m = 2 \<and> length dd = 2
      \<and> digits y \<and> digits m \<and> digits dd
      \<and> decimal y = year d \<and> decimal m = month d \<and> decimal dd = day d"
proof -
  let ?y = "[digit (year d div 1000), digit (year d div 100), digit (year d div 10), digit (year d)]"
  let ?m = "[digit (month d div 10), digit (month d)]"
  let ?dd = "[digit (day d div 10), digit (day d)]"
  have "strftime_Ymd d = ?y @ ''-'' @ ?m @ ''-'' @ ?dd"
    by (simp add: strftime_Ymd_def)
  moreover have "digits ?y" "digits ?m" "digits ?dd"
    unfolding digits_def using digit_in by simp_all
  moreover have "decimal ?y = year d" "decimal ?m = month d" "decimal ?dd = day d"
    using assms by (simp_all add: decimal_4 decimal_2 valid_date_def)
  ultimately show ?thesis
    by (intro exI [of _ ?y] exI [of _ ?m] exI [of _ ?dd]) simp
qed

lemma strftime_a_day: "strftime_Ymd a_day = ''2026-11-04''"
  by (simp add: strftime_Ymd_def a_day_def digit_def)

subsection \<open>C1: the order of the sorted list\<close>

text \<open>
  Claim C1. On every list of valid fragments \<^verbatim>\<open>sort_fragments\<close> returns a list with the
  same fragments, ordered first by the rank of the category, that is its index in the
  precedence list Development, AI, Cloud, DevOps, Database, Network, CI/CD, and second by
  \<^verbatim>\<open>id\<close> in ascending lexicographic order. A category outside the list has the rank
  after the last index, so every fragment with such a category comes strictly after
  every fragment whose category is listed. In particular a fragment with category DevOps
  and id docker followed by one with category AI and id openai is returned as openai,
  docker.
\<close>

theorem sort_fragments_ordered:
  assumes "list_all valid_fragment fs"
  shows "\<exists>out. sort_fragments fs = Inr out \<and> mset out = mset fs
      \<and> (\<forall>f \<in> set fs. sort_key_of f = Inr (category_rank (category_of f), JStr (id_of f)))
      \<and> (\<forall>i j. i < j \<and> j < length out \<longrightarrow>
            category_rank (category_of (out ! i)) < category_rank (category_of (out ! j))
            \<or> (category_rank (category_of (out ! i)) = category_rank (category_of (out ! j))
                \<and> id_of (out ! i) \<le> id_of (out ! j)))
      \<and> (\<forall>i j. i < length out \<and> j < length out
            \<and> category_of (out ! i) \<in> set category_order
            \<and> category_of (out ! j) \<notin> set category_order \<longrightarrow> i < j)
      \<and> (\<forall>c. (c \<in> set category_order \<longrightarrow>
                 category_rank c < length category_order \<and> category_order ! category_rank c = c)
              \<and> (c \<notin> set category_order \<longrightarrow> category_rank c = length category_order))
      \<and> (\<forall>d p. valid_fragment d \<and> valid_fragment p
            \<and> category_of d = ''DevOps'' \<and> id_of d = ''docker''
            \<and> category_of p = ''AI'' \<and> id_of p = ''openai'' \<longrightarrow>
            sort_fragments [d, p] = Inr [p, d])"
proof -
  define k where "k = (\<lambda>f. (category_rank (category_of f), id_of f))"
  define out where "out = sort_key k fs"
  have res: "sort_fragments fs = Inr out"
    unfolding out_def k_def using assms by (rule sort_fragments_valid)
  have srt: "sorted (map k out)"
    unfolding out_def by (rule sorted_sort_key)
  have ord: "category_rank (category_of (out ! i)) < category_rank (category_of (out ! j))
            \<or> (category_rank (category_of (out ! i)) = category_rank (category_of (out ! j))
                \<and> id_of (out ! i) \<le> id_of (out ! j))"
    if "i < j" "j < length out" for i j
    using sorted_key_nth [OF srt that] unfolding k_def fst_conv snd_conv .
  have after: "i < j"
    if ij: "i < length out" "j < length out"
      and known: "category_of (out ! i) \<in> set category_order"
      and unknown: "category_of (out ! j) \<notin> set category_order" for i j
  proof (rule ccontr)
    assume "\<not> i < j"
    moreover have "i \<noteq> j" using known unknown by blast
    ultimately have "j < i" by linarith
    from ord [OF this ij(1)]
    have "category_rank (category_of (out ! j)) \<le> category_rank (category_of (out ! i))"
      by linarith
    moreover have "category_rank (category_of (out ! i)) < length category_order"
      using category_rank_known [OF known] by (rule conjunct1)
    moreover have "category_rank (category_of (out ! j)) = length category_order"
      using unknown by (rule category_rank_unknown)
    ultimately show False by linarith
  qed
  have keys: "\<forall>f \<in> set fs. sort_key_of f = Inr (category_rank (category_of f), JStr (id_of f))"
    using assms by (simp add: list_all_iff valid_sort_key_of)
  have ms: "mset out = mset fs"
    unfolding out_def by (rule mset_sort)
  have c4: "\<forall>i j. i < j \<and> j < length out \<longrightarrow>
            category_rank (category_of (out ! i)) < category_rank (category_of (out ! j))
            \<or> (category_rank (category_of (out ! i)) = category_rank (category_of (out ! j))
                \<and> id_of (out ! i) \<le> id_of (out ! j))"
    using ord by blast
  have c5: "\<forall>i j. i < length out \<and> j < length out
            \<and> category_of (out ! i) \<in> set category_order
            \<and> category_of (out ! j) \<notin> set category_order \<longrightarrow> i < j"
    using after by blast
  have c6: "\<forall>c. (c \<in> set category_order \<longrightarrow>
                 category_rank c < length category_order \<and> category_order ! category_rank c = c)
              \<and> (c \<notin> set category_order \<longrightarrow> category_rank c = length category_order)"
    using category_rank_known category_rank_unknown by blast
  have c7: "\<forall>d p. valid_fragment d \<and> valid_fragment p
            \<and> category_of d = ''DevOps'' \<and> id_of d = ''docker''
            \<and> category_of p = ''AI'' \<and> id_of p = ''openai'' \<longrightarrow>
            sort_fragments [d, p] = Inr [p, d]"
    using sort_devops_ai by blast
  show ?thesis
    by (intro exI [of _ out] conjI) (fact res ms keys c4 c5 c6 c7)+
qed

theorem sort_fragments_ordered_witness:
  "list_all valid_fragment [docker, openai]
   \<and> sort_fragments [docker, openai] = Inr [openai, docker]
   \<and> sort_key_of docker = Inr (3, JStr ''docker'')
   \<and> sort_key_of openai = Inr (1, JStr ''openai'')"
proof -
  have h: "list_all valid_fragment [docker, openai]"
    by (simp add: docker_def openai_def valid_fragment_example)
  have r: "category_rank ''DevOps'' = 3" "category_rank ''AI'' = 1"
    by (simp_all add: category_rank_def category_order_def)
  from sort_fragments_ordered [OF h] obtain out :: "json list" where
    keys: "\<forall>f \<in> set [docker, openai].
             sort_key_of f = Inr (category_rank (category_of f), JStr (id_of f))"
    and ex: "\<forall>d p. valid_fragment d \<and> valid_fragment p
            \<and> category_of d = ''DevOps'' \<and> id_of d = ''docker''
            \<and> category_of p = ''AI'' \<and> id_of p = ''openai'' \<longrightarrow>
            sort_fragments [d, p] = Inr [p, d]"
    by blast
  have "sort_fragments [docker, openai] = Inr [openai, docker]"
    using ex [rule_format, of docker openai]
    by (simp add: docker_def openai_def valid_fragment_example example_fields)
  moreover have "sort_key_of docker = Inr (3, JStr ''docker'')"
    "sort_key_of openai = Inr (1, JStr ''openai'')"
    using keys r by (simp_all add: docker_def openai_def example_fields)
  ultimately show ?thesis using h by simp
qed

subsection \<open>C2: sorting twice, permuted inputs, stability\<close>

text \<open>
  Claim C2, as amended. On every list of valid fragments the sorter returns a list that
  it leaves unchanged when sorting it again. It keeps every fragment, duplicates by id
  included, and fragments with the same category and id stay in their input order. For
  an input list with the same multiset of fragments the output has the same sequence of
  keys (category rank, id), and it is the same list when no two fragments share a key.
\<close>

theorem sort_fragments_stable:
  assumes "list_all valid_fragment fs"
  shows "\<exists>out. sort_fragments fs = Inr out
      \<and> sort_fragments out = Inr out
      \<and> mset out = mset fs
      \<and> (\<forall>c i. filter (\<lambda>f. category_of f = c \<and> id_of f = i) out
               = filter (\<lambda>f. category_of f = c \<and> id_of f = i) fs)
      \<and> (\<forall>fs'. mset fs' = mset fs \<longrightarrow>
            (\<exists>out'. sort_fragments fs' = Inr out'
               \<and> map (\<lambda>f. (category_rank (category_of f), id_of f)) out'
                 = map (\<lambda>f. (category_rank (category_of f), id_of f)) out
               \<and> (distinct (map (\<lambda>f. (category_rank (category_of f), id_of f)) fs)
                    \<longrightarrow> out' = out)))"
proof -
  define k where "k = (\<lambda>f. (category_rank (category_of f), id_of f))"
  define out where "out = sort_key k fs"
  have res: "sort_fragments fs = Inr out"
    unfolding out_def k_def using assms by (rule sort_fragments_valid)
  have "sort_fragments out = Inr (sort_key k out)"
    unfolding out_def k_def using assms by (intro sort_fragments_valid sorted_valid)
  then have idem: "sort_fragments out = Inr out"
    unfolding out_def by (simp only: sort_idem)
  have ms: "mset out = mset fs"
    unfolding out_def by (rule mset_sort)
  have stab: "\<forall>c i. filter (\<lambda>f. category_of f = c \<and> id_of f = i) out
               = filter (\<lambda>f. category_of f = c \<and> id_of f = i) fs"
  proof (intro allI)
    fix c i
    show "filter (\<lambda>f. category_of f = c \<and> id_of f = i) out
               = filter (\<lambda>f. category_of f = c \<and> id_of f = i) fs"
    proof (rule filter_category_id)
      fix key
      show "filter (\<lambda>f. (category_rank (category_of f), id_of f) = key) out
               = filter (\<lambda>f. (category_rank (category_of f), id_of f) = key) fs"
        unfolding out_def k_def by (rule sort_key_stable)
    qed
  qed
  have perm: "\<forall>fs'. mset fs' = mset fs \<longrightarrow>
            (\<exists>out'. sort_fragments fs' = Inr out' \<and> map k out' = map k out
               \<and> (distinct (map k fs) \<longrightarrow> out' = out))"
  proof (intro allI impI)
    fix fs' assume m: "mset fs' = mset fs"
    then have "set fs' = set fs" by (rule mset_eq_setD)
    with assms have "list_all valid_fragment fs'" by (simp add: list_all_iff)
    then have r': "sort_fragments fs' = Inr (sort_key k fs')"
      unfolding k_def by (rule sort_fragments_valid)
    have "map k (sort_key k fs') = map k out"
      unfolding out_def using m by (rule map_sort_key_mset)
    moreover have "distinct (map k fs) \<longrightarrow> sort_key k fs' = out"
      unfolding out_def using m by (auto intro: sort_key_distinct_mset [symmetric])
    ultimately show "\<exists>out'. sort_fragments fs' = Inr out' \<and> map k out' = map k out
               \<and> (distinct (map k fs) \<longrightarrow> out' = out)"
      using r' by blast
  qed
  show ?thesis
    by (intro exI [of _ out] conjI) (fact res idem ms stab perm [unfolded k_def])+
qed

theorem sort_fragments_stable_witness:
  "list_all valid_fragment [docker, openai]
   \<and> mset [openai, docker] = mset [docker, openai]
   \<and> distinct [(3 :: nat, ''docker''), (1, ''openai'')]
   \<and> sort_fragments [docker, openai] = Inr [openai, docker]
   \<and> sort_fragments [openai, docker] = Inr [openai, docker]"
proof -
  have h: "list_all valid_fragment [docker, openai]"
    by (simp add: docker_def openai_def valid_fragment_example)
  have s: "sort_fragments [docker, openai] = Inr [openai, docker]"
    using sort_devops_ai [of docker openai] h
    by (simp add: docker_def openai_def example_fields)
  from sort_fragments_stable [OF h] obtain out where
    "sort_fragments [docker, openai] = Inr out" "sort_fragments out = Inr out"
    by blast
  with s have "sort_fragments [openai, docker] = Inr [openai, docker]" by simp
  with h s show ?thesis by simp
qed

text \<open>
  The claim as stated, identical output for every two permutations of the input, fails
  for two fragments with one id and two different categories outside the precedence
  list: they have the same key, so each input order is returned as it is.
\<close>

theorem sort_fragments_permutation_counterexample:
  "list_all valid_fragment [unlisted_a, unlisted_b]
   \<and> mset [unlisted_b, unlisted_a] = mset [unlisted_a, unlisted_b]
   \<and> category_of unlisted_a = ''Foo'' \<and> id_of unlisted_a = ''x''
   \<and> category_of unlisted_b = ''Bar'' \<and> id_of unlisted_b = ''x''
   \<and> sort_fragments [unlisted_a, unlisted_b] = Inr [unlisted_a, unlisted_b]
   \<and> sort_fragments [unlisted_b, unlisted_a] = Inr [unlisted_b, unlisted_a]
   \<and> [unlisted_a, unlisted_b] \<noteq> [unlisted_b, unlisted_a]"
proof -
  have v: "list_all valid_fragment [unlisted_a, unlisted_b]"
    "list_all valid_fragment [unlisted_b, unlisted_a]"
    by (simp_all add: unlisted_a_def unlisted_b_def valid_fragment_example)
  have r: "category_rank ''Foo'' = 7" "category_rank ''Bar'' = 7"
    by (simp_all add: category_rank_def category_order_def)
  have "sort_fragments [unlisted_a, unlisted_b] = Inr [unlisted_a, unlisted_b]"
    unfolding sort_fragments_valid [OF v(1)]
    by (simp add: unlisted_a_def unlisted_b_def example_fields r)
  moreover have "sort_fragments [unlisted_b, unlisted_a] = Inr [unlisted_b, unlisted_a]"
    unfolding sort_fragments_valid [OF v(2)]
    by (simp add: unlisted_a_def unlisted_b_def example_fields r)
  moreover have "unlisted_a \<noteq> unlisted_b"
    by (simp add: unlisted_a_def unlisted_b_def fragment_def)
  ultimately show ?thesis
    using v(1) by (simp add: unlisted_a_def unlisted_b_def example_fields)
qed

subsection \<open>C3: rejected fragment files\<close>

text \<open>
  Claim C3. \<^verbatim>\<open>load_fragment\<close> returns a fragment only for a file that parses to an
  object with all of the required attributes id, name, description, category and
  variables. For a file that does not parse it prints one ERROR line with the name of the
  file and the message of the parser and returns no fragment; for an object that lacks
  required attributes it prints one ERROR line that lists exactly the missing names, in
  the order of the list of required names (only variables for a file that lacks only
  variables), and returns no fragment. The loop of the collector then goes on with the
  remaining files, and returns their fragments when it can print the name of each.
\<close>

theorem load_fragment_required:
  "(\<forall>ls d. load_fragment name r = (ls, Some d) \<longrightarrow>
       r = Parsed d \<and> (\<exists>kv. d = JObj kv \<and> set required_fields \<subseteq> fst ` set kv))
   \<and> (\<forall>msg. load_fragment name (Raised (JSONDecodeError msg)) = ([Invalid_JSON name msg], None)
         \<and> tag_of (Invalid_JSON name msg) = ERROR)
   \<and> (\<forall>kv. \<not> set required_fields \<subseteq> fst ` set kv \<longrightarrow>
         load_fragment name (Parsed (JObj kv))
         = ([Missing_required_fields name (filter (\<lambda>f. f \<notin> fst ` set kv) required_fields)], None)
         \<and> tag_of (Missing_required_fields name (filter (\<lambda>f. f \<notin> fst ` set kv) required_fields))
           = ERROR)
   \<and> (\<forall>kv. ''variables'' \<notin> fst ` set kv
           \<and> {''id'', ''name'', ''description'', ''category''} \<subseteq> fst ` set kv \<longrightarrow>
         load_fragment name (Parsed (JObj kv))
         = ([Missing_required_fields name [''variables'']], None))
   \<and> (\<forall>f fs out acc. loaded f = None \<longrightarrow>
         load_loop (f # fs) (out, acc)
         = load_loop fs (out @ fst (load_fragment (fst f) (snd f)), acc)
         \<and> (list_all printable_name (accepted fs) \<longrightarrow>
              load_loop fs (out @ fst (load_fragment (fst f) (snd f)), acc)
              = Inr (out @ fst (load_fragment (fst f) (snd f)) @ concat (map lines_of fs),
                     acc @ accepted fs)))"
proof (intro conjI allI impI)
  fix ls d assume "load_fragment name r = (ls, Some d)"
  then have "r = Parsed d \<and> (\<exists>kv. d = JObj kv \<and> set required_fields \<subseteq> fst ` set kv)"
    by (rule load_fragment_Some)
  then show "r = Parsed d" "\<exists>kv. d = JObj kv \<and> set required_fields \<subseteq> fst ` set kv"
    by simp_all
next
  fix msg
  show "load_fragment name (Raised (JSONDecodeError msg)) = ([Invalid_JSON name msg], None)"
    "tag_of (Invalid_JSON name msg) = ERROR"
    by simp_all
next
  fix kv :: "(string \<times> json) list"
  assume "\<not> set required_fields \<subseteq> fst ` set kv"
  then have "filter (\<lambda>f. f \<notin> fst ` set kv) required_fields \<noteq> []"
    by (simp add: missing_nonempty)
  then show "load_fragment name (Parsed (JObj kv))
         = ([Missing_required_fields name (filter (\<lambda>f. f \<notin> fst ` set kv) required_fields)], None)"
    by (subst load_fragment_obj) simp
  show "tag_of (Missing_required_fields name (filter (\<lambda>f. f \<notin> fst ` set kv) required_fields))
           = ERROR"
    by simp
next
  fix kv :: "(string \<times> json) list"
  assume a: "''variables'' \<notin> fst ` set kv
           \<and> {''id'', ''name'', ''description'', ''category''} \<subseteq> fst ` set kv"
  then have "filter (\<lambda>f. f \<notin> fst ` set kv) required_fields = [''variables'']"
    by (simp add: required_fields_def)
  then show "load_fragment name (Parsed (JObj kv))
         = ([Missing_required_fields name [''variables'']], None)"
    by (subst load_fragment_obj) simp
next
  fix f :: "string \<times> read_result" and fs :: entries and out :: "line list" and acc :: "json list"
  assume "loaded f = None"
  then show "load_loop (f # fs) (out, acc)
         = load_loop fs (out @ fst (load_fragment (fst f) (snd f)), acc)"
    by (rule load_loop_rejected)
  assume "list_all printable_name (accepted fs)"
  then show "load_loop fs (out @ fst (load_fragment (fst f) (snd f)), acc)
           = Inr (out @ fst (load_fragment (fst f) (snd f)) @ concat (map lines_of fs),
                  acc @ accepted fs)"
    by (simp add: load_loop_eq)
qed

theorem load_fragment_required_witness:
  "''variables'' \<notin> fst ` set [(''id'', JStr ''broken''), (''name'', JStr ''Broken''),
        (''description'', JStr []), (''category'', JStr ''AI'')]
   \<and> load_fragment ''broken.json'' (Parsed no_variables)
       = ([Missing_required_fields ''broken.json'' [''variables'']], None)
   \<and> loaded (''broken.json'', Parsed no_variables) = None
   \<and> list_all printable_name (accepted [(''docker.json'', Parsed docker)])
   \<and> load_loop [(''broken.json'', Parsed no_variables), (''docker.json'', Parsed docker)] ([], [])
       = Inr ([Missing_required_fields ''broken.json'' [''variables''],
               Fragment_ok ''docker.json'' (JStr ''docker'')], [docker])"
proof -
  let ?kv = "[(''id'', JStr ''broken''), (''name'', JStr ''Broken''),
        (''description'', JStr []), (''category'', JStr ''AI'')]"
  note inst = load_fragment_required [of "''broken.json''" "Parsed no_variables"]
  have a: "''variables'' \<notin> fst ` set ?kv"
    "{''id'', ''name'', ''description'', ''category''} \<subseteq> fst ` set ?kv"
    by simp_all
  from inst a have l: "load_fragment ''broken.json'' (Parsed no_variables)
       = ([Missing_required_fields ''broken.json'' [''variables'']], None)"
    unfolding no_variables_def by (elim conjE allE [of _ ?kv]) simp
  then have n: "loaded (''broken.json'', Parsed no_variables) = None"
    by (simp add: loaded_def)
  have ac: "accepted [(''docker.json'', Parsed docker)] = [docker]"
    by (simp add: accepted_Cons loaded_def load_examples accepted_def del: load_fragment.simps)
  have p: "list_all printable_name (accepted [(''docker.json'', Parsed docker)])"
    unfolding ac by (simp add: printable_name_def docker_def fragment_def)
  from inst n p have "load_loop [(''broken.json'', Parsed no_variables), (''docker.json'', Parsed docker)] ([], [])
       = Inr ([] @ fst (load_fragment ''broken.json'' (Parsed no_variables))
               @ concat (map lines_of [(''docker.json'', Parsed docker)]),
              [] @ accepted [(''docker.json'', Parsed docker)])"
    by (elim conjE allE [of _ "(''broken.json'', Parsed no_variables)"]
        allE [of _ "[(''docker.json'', Parsed docker)]"] allE [of _ "[] :: line list"]
        allE [of _ "[] :: json list"]) simp
  then have "load_loop [(''broken.json'', Parsed no_variables), (''docker.json'', Parsed docker)] ([], [])
       = Inr ([Missing_required_fields ''broken.json'' [''variables''],
               Fragment_ok ''docker.json'' (JStr ''docker'')], [docker])"
    unfolding l by (simp add: lines_of_def loaded_def accepted_def load_examples del: load_fragment.simps)
      (simp add: docker_def fragment_def)
  with a l n p show ?thesis by simp
qed

subsection \<open>C4: a run without valid fragments\<close>




subsection \<open>C5: the envelope of the catalog\<close>

text \<open>
  Claim C5. \<^verbatim>\<open>generate_profile\<close> builds the object with the version 1.0.0, the
  current date under lastUpdated, the fixed author, description and repository, and the
  given list, unchanged, under templates. The date has the form of four digits, a hyphen,
  two digits, a hyphen and two digits, which write the year, the month and the day. Every
  entry of the templates of a written catalog passes the check of the required fields
  again, and the loader accepts it again under any file name when its id can be printed.
\<close>

theorem generate_profile_envelope:
  assumes "valid_date today"
  shows "generate_profile today fs =
       JObj [(''version'', JStr ''1.0.0''),
             (''lastUpdated'', JStr (strftime_Ymd today)),
             (''author'', JStr ''TCM Community''),
             (''description'', JStr ''Terminal Context Manager - Profile Templates & Environment Variables Dictionary''),
             (''repository'', JStr ''https://github.com/ZhiZeYi/terminal-context-template''),
             (''templates'', JArr fs)]
     \<and> (\<exists>y m d. strftime_Ymd today = y @ ''-'' @ m @ ''-'' @ d
           \<and> length y = 4 \<and> length m = 2 \<and> length d = 2
           \<and> digits y \<and> digits m \<and> digits d
           \<and> decimal y = year today \<and> decimal m = month today \<and> decimal d = day today)
     \<and> subscript (generate_profile today fs) ''templates'' = Inr (JArr fs)
     \<and> ((\<forall>f \<in> set fs. missing_fields required_fields f = Inr []) \<longrightarrow>
          (\<exists>ts. subscript (generate_profile today fs) ''templates'' = Inr (JArr ts)
             \<and> (\<forall>t \<in> set ts. missing_fields required_fields t = Inr [])))
     \<and> (\<forall>dumps a dir written.
           output_file (main dumps a today dir) = Some written \<longrightarrow>
           (\<exists>sorted. written = dumps (generate_profile today sorted) @ [CHR 0x0A]
              \<and> (\<forall>t \<in> set sorted. missing_fields required_fields t = Inr []
                    \<and> (\<forall>name. printable_id t \<longrightarrow>
                          snd (load_fragment name (Parsed t)) = Some t))))"
proof -
  have c1: "generate_profile today fs =
       JObj [(''version'', JStr ''1.0.0''),
             (''lastUpdated'', JStr (strftime_Ymd today)),
             (''author'', JStr ''TCM Community''),
             (''description'', JStr ''Terminal Context Manager - Profile Templates & Environment Variables Dictionary''),
             (''repository'', JStr ''https://github.com/ZhiZeYi/terminal-context-template''),
             (''templates'', JArr fs)]"
    by (simp only: generate_profile_def)
  have c2: "\<exists>y m d. strftime_Ymd today = y @ ''-'' @ m @ ''-'' @ d
           \<and> length y = 4 \<and> length m = 2 \<and> length d = 2
           \<and> digits y \<and> digits m \<and> digits d
           \<and> decimal y = year today \<and> decimal m = month today \<and> decimal d = day today"
    using assms by (rule strftime_form)
  have c3: "subscript (generate_profile today fs) ''templates'' = Inr (JArr fs)"
    by (simp add: generate_profile_def)
  have c4: "(\<forall>f \<in> set fs. missing_fields required_fields f = Inr []) \<longrightarrow>
          (\<exists>ts. subscript (generate_profile today fs) ''templates'' = Inr (JArr ts)
             \<and> (\<forall>t \<in> set ts. missing_fields required_fields t = Inr []))"
    using c3 by blast
  have c5: "\<forall>dumps a dir written.
           output_file (main dumps a today dir) = Some written \<longrightarrow>
           (\<exists>sorted. written = dumps (generate_profile today sorted) @ [CHR 0x0A]
              \<and> (\<forall>t \<in> set sorted. missing_fields required_fields t = Inr []
                    \<and> (\<forall>name. printable_id t \<longrightarrow>
                          snd (load_fragment name (Parsed t)) = Some t)))"
    using main_written_valid by blast
  show ?thesis
    by (intro conjI) (fact c1 c2 c3 c4 c5)+
qed

theorem generate_profile_envelope_witness:
  "valid_date a_day
   \<and> strftime_Ymd a_day = ''2026-11-04''
   \<and> generate_profile a_day [openai, docker] =
       JObj [(''version'', JStr ''1.0.0''),
             (''lastUpdated'', JStr ''2026-11-04''),
             (''author'', JStr ''TCM Community''),
             (''description'', JStr ''Terminal Context Manager - Profile Templates & Environment Variables Dictionary''),
             (''repository'', JStr ''https://github.com/ZhiZeYi/terminal-context-template''),
             (''templates'', JArr [openai, docker])]
   \<and> missing_fields required_fields openai = Inr []
   \<and> missing_fields required_fields docker = Inr []
   \<and> output_file (main keys_only generate a_day (Some source_dir))
      = Some (keys_only (generate_profile a_day [openai, docker]) @ [CHR 0x0A])
   \<and> printable_id openai
   \<and> snd (load_fragment ''copy.json'' (Parsed openai)) = Some openai"
proof -
  have v: "valid_date a_day"
    by (simp add: valid_date_def a_day_def)
  have m: "missing_fields required_fields openai = Inr []"
    "missing_fields required_fields docker = Inr []"
    by (simp_all add: openai_def docker_def fragment_def required_fields_def)
  from generate_profile_envelope [OF v, of "[openai, docker]"]
  have "generate_profile a_day [openai, docker] =
       JObj [(''version'', JStr ''1.0.0''),
             (''lastUpdated'', JStr (strftime_Ymd a_day)),
             (''author'', JStr ''TCM Community''),
             (''description'', JStr ''Terminal Context Manager - Profile Templates & Environment Variables Dictionary''),
             (''repository'', JStr ''https://github.com/ZhiZeYi/terminal-context-template''),
             (''templates'', JArr [openai, docker])]"
    by (rule conjunct1)
  moreover have "output_file (main keys_only generate a_day (Some source_dir))
      = Some (keys_only (generate_profile a_day [openai, docker]) @ [CHR 0x0A])"
    by (simp add: main_source_dir)
  moreover have "printable_id openai"
    by (simp add: printable_id_def openai_def fragment_def)
  moreover have "snd (load_fragment ''copy.json'' (Parsed openai)) = Some openai"
    by (simp add: openai_def fragment_def validate_fragment_def required_fields_def stem_def)
  ultimately show ?thesis using v m strftime_a_day by simp
qed

subsection \<open>C6: an id that differs from the file name\<close>




subsection \<open>C7: the files the collector reads\<close>

text \<open>
  Claim C7. The collector processes exactly the entries of the source directory whose
  name ends in \<^verbatim>\<open>.json\<close> and does not begin with an underscore, in ascending order
  of their names: it returns the fragments the loader accepts of them, unless it cannot
  print the name of one, which ends it with \<^verbatim>\<open>UnicodeEncodeError\<close>. No line it
  prints names another file, and what it returns does not depend on the other entries,
  whatever their content (a file \<^verbatim>\<open>_draft.json\<close> is one of them), nor on the order in
  which the directory is enumerated.
\<close>

theorem collect_fragments_deterministic:
  "(\<exists>ls. (if list_all printable_name (accepted (json_files es))
          then collect_fragments (Some es) = Inr (ls, accepted (json_files es))
          else collect_fragments (Some es) = Inl (ls, UnicodeEncodeError))
       \<and> (\<forall>l \<in> set ls. \<forall>n. file_of l = Some n \<longrightarrow>
             n \<in> fst ` set es \<and> suffix ''.json'' n \<and> \<not> prefix ''_'' n))
   \<and> set (json_files es) = {f \<in> set es. suffix ''.json'' (fst f) \<and> \<not> prefix ''_'' (fst f)}
   \<and> sorted (map fst (json_files es))
   \<and> (\<forall>es'. filter (\<lambda>f. suffix ''.json'' (fst f) \<and> \<not> prefix ''_'' (fst f)) es'
            = filter (\<lambda>f. suffix ''.json'' (fst f) \<and> \<not> prefix ''_'' (fst f)) es \<longrightarrow>
          collect_fragments (Some es') = collect_fragments (Some es))
   \<and> (\<forall>es'. distinct (map fst es) \<and> mset es' = mset es \<longrightarrow>
          collect_fragments (Some es') = collect_fragments (Some es))
   \<and> \<not> (suffix ''.json'' ''_draft.json'' \<and> \<not> prefix ''_'' ''_draft.json'')"
proof -
  have c1: "\<exists>ls. (if list_all printable_name (accepted (json_files es))
          then collect_fragments (Some es) = Inr (ls, accepted (json_files es))
          else collect_fragments (Some es) = Inl (ls, UnicodeEncodeError))
       \<and> (\<forall>l \<in> set ls. \<forall>n. file_of l = Some n \<longrightarrow>
             n \<in> fst ` set es \<and> suffix ''.json'' n \<and> \<not> prefix ''_'' n)"
  proof (cases "list_all printable_name (accepted (json_files es))")
    case True
    define ls where "ls = [Scanning, Found (length (json_files es))]
        @ concat (map lines_of (json_files es))"
    from True have c: "collect_fragments (Some es) = Inr (ls, accepted (json_files es))"
      unfolding ls_def by (rule collect_fragments_Some)
    have "\<forall>l \<in> set ls. \<forall>n. file_of l = Some n \<longrightarrow>
             n \<in> fst ` set es \<and> suffix ''.json'' n \<and> \<not> prefix ''_'' n"
      using collect_lines_files [OF c] by (auto simp: candidate_def)
    with c True show ?thesis by auto
  next
    case False
    obtain ls where c: "collect_fragments (Some es) = Inl (ls, UnicodeEncodeError)"
      using False collect_fragments_cases [of "Some es"] collect_fragments_Inr [of es]
      by blast
    have "\<forall>l \<in> set ls. \<forall>n. file_of l = Some n \<longrightarrow>
             n \<in> fst ` set es \<and> suffix ''.json'' n \<and> \<not> prefix ''_'' n"
      using collect_error_files [OF c] by (auto simp: candidate_def)
    with c False show ?thesis by auto
  qed
  have c2: "set (json_files es) = {f \<in> set es. suffix ''.json'' (fst f) \<and> \<not> prefix ''_'' (fst f)}"
    by (simp only: set_json_files candidate_def)
  have c4: "\<forall>es'. filter (\<lambda>f. suffix ''.json'' (fst f) \<and> \<not> prefix ''_'' (fst f)) es'
            = filter (\<lambda>f. suffix ''.json'' (fst f) \<and> \<not> prefix ''_'' (fst f)) es \<longrightarrow>
          collect_fragments (Some es') = collect_fragments (Some es)"
    using collect_fragments_excluded [of _ es, unfolded candidate_def] by blast
  have c5: "\<forall>es'. distinct (map fst es) \<and> mset es' = mset es \<longrightarrow>
          collect_fragments (Some es') = collect_fragments (Some es)"
    using collect_fragments_perm by blast
  have c6: "\<not> (suffix ''.json'' ''_draft.json'' \<and> \<not> prefix ''_'' ''_draft.json'')"
    by simp
  show ?thesis
    by (intro conjI) (fact c1 c2 sorted_json_files c4 c5 c6)+
qed

theorem collect_fragments_deterministic_witness:
  "distinct (map fst source_dir)
   \<and> list_all printable_name (accepted (json_files source_dir))
   \<and> collect_fragments (Some source_dir') = collect_fragments (Some source_dir)
   \<and> collect_fragments (Some source_dir)
      = Inr ([Scanning, Found 3, Missing_required_fields ''broken.json'' [''variables''],
              Fragment_ok ''docker.json'' (JStr ''docker''),
              Fragment_ok ''openai.json'' (JStr ''openai'')],
             [docker, openai])"
proof -
  let ?es = "[(''broken.json'', Parsed no_variables), (''docker.json'', Parsed docker),
        (''openai.json'', Parsed openai)]"
  have d: "distinct (map fst source_dir)"
    by (simp add: source_dir_def)
  have "filter (\<lambda>f. suffix ''.json'' (fst f) \<and> \<not> prefix ''_'' (fst f)) source_dir = rev ?es"
    by (simp add: source_dir_def suffix_to_prefix)
  then have "filter (\<lambda>f. suffix ''.json'' (fst f) \<and> \<not> prefix ''_'' (fst f)) (rev ?es)
      = filter (\<lambda>f. suffix ''.json'' (fst f) \<and> \<not> prefix ''_'' (fst f)) source_dir"
    by (simp add: suffix_to_prefix)
  with collect_fragments_deterministic [of source_dir]
  have a: "collect_fragments (Some (rev ?es)) = collect_fragments (Some source_dir)"
    by blast
  have "filter (\<lambda>f. suffix ''.json'' (fst f) \<and> \<not> prefix ''_'' (fst f)) source_dir'
      = filter (\<lambda>f. suffix ''.json'' (fst f) \<and> \<not> prefix ''_'' (fst f)) ?es"
    by (rule filter_source_dir)
  with collect_fragments_deterministic [of ?es]
  have b: "collect_fragments (Some source_dir') = collect_fragments (Some ?es)"
    by blast
  have "distinct (map fst ?es) \<and> mset (rev ?es) = mset ?es" by simp
  with collect_fragments_deterministic [of ?es]
  have "collect_fragments (Some (rev ?es)) = collect_fragments (Some ?es)"
    by blast
  with a b have "collect_fragments (Some source_dir') = collect_fragments (Some source_dir)"
    by simp
  moreover have "accepted (json_files source_dir) = [docker, openai]"
    unfolding json_files_source_dir
    by (simp add: accepted_Cons loaded_def load_examples accepted_def del: load_fragment.simps)
  then have "list_all printable_name (accepted (json_files source_dir))"
    by (simp add: printable_name_def docker_def openai_def fragment_def)
  ultimately show ?thesis using d collect_source_dir by simp
qed

subsection \<open>C8: two runs on the same directory and date\<close>

text \<open>
  Claim C8. Two runs with the same flags and date on a directory that holds the same
  files, in whatever order the file system enumerates them, print the same lines, end the
  same way and write the same text to the output file.
\<close>

theorem main_reproducible:
  assumes "distinct (map fst es)" "mset es' = mset es"
  shows "main dumps a today (Some es') = main dumps a today (Some es)
       \<and> output_file (main dumps a today (Some es')) = output_file (main dumps a today (Some es))"
  using main_perm [OF assms] by simp

theorem main_reproducible_witness:
  "distinct (map fst source_dir) \<and> mset (rev source_dir) = mset source_dir
   \<and> main keys_only generate a_day (Some (rev source_dir))
     = main keys_only generate a_day (Some source_dir)
   \<and> output_file (main keys_only generate a_day (Some (rev source_dir)))
     = Some (keys_only (generate_profile a_day [openai, docker]) @ [CHR 0x0A])"
proof -
  have h: "distinct (map fst source_dir)" "mset (rev source_dir) = mset source_dir"
    by (simp_all add: source_dir_def)
  from main_reproducible [OF h, of keys_only generate a_day]
  have e: "main keys_only generate a_day (Some (rev source_dir))
     = main keys_only generate a_day (Some source_dir)"
    by (rule conjunct1)
  then have "output_file (main keys_only generate a_day (Some (rev source_dir)))
     = Some (keys_only (generate_profile a_day [openai, docker]) @ [CHR 0x0A])"
    by (simp only: main_source_dir run.simps)
  with h e show ?thesis by simp
qed

subsection \<open>C9: only objects are accepted\<close>

text \<open>
  Claim C9. A file whose parsed value is not an object (an array, a string, a number, a
  boolean or null) is rejected by \<^verbatim>\<open>load_fragment\<close> with one ERROR line, also the
  array of the five field names, for which no field is reported missing and the access
  \<^verbatim>\<open>data["id"]\<close> raises \<^verbatim>\<open>TypeError\<close>, caught by the last handler. So every
  collected fragment, and every entry of the templates a run writes, is an object with the
  five required fields.
\<close>

theorem load_fragment_objects_only:
  "(\<forall>d. (\<forall>kv. d \<noteq> JObj kv) \<longrightarrow>
       (\<exists>l. load_fragment name (Parsed d) = ([l], None) \<and> tag_of l = ERROR
          \<and> file_of l = Some name))
   \<and> missing_fields required_fields (JArr (map JStr required_fields)) = Inr []
   \<and> subscript (JArr (map JStr required_fields)) ''id'' = Inl TypeError
   \<and> load_fragment name (Parsed (JArr (map JStr required_fields)))
     = ([Load_error name TypeError], None)
   \<and> (\<forall>dir ls fs. collect_fragments dir = Inr (ls, fs) \<longrightarrow>
         (\<forall>f \<in> set fs. \<exists>kv. f = JObj kv \<and> set required_fields \<subseteq> fst ` set kv))
   \<and> (\<forall>dumps a today dir written.
         output_file (main dumps a today dir) = Some written \<longrightarrow>
         (\<exists>sorted. written = dumps (generate_profile today sorted) @ [CHR 0x0A]
            \<and> (\<forall>f \<in> set sorted. \<exists>kv. f = JObj kv \<and> set required_fields \<subseteq> fst ` set kv)))"
proof -
  have c1: "\<forall>d. (\<forall>kv. d \<noteq> JObj kv) \<longrightarrow>
       (\<exists>l. load_fragment name (Parsed d) = ([l], None) \<and> tag_of l = ERROR
          \<and> file_of l = Some name)"
    using load_fragment_not_obj_line by blast
  have c3: "subscript (JArr (map JStr required_fields)) ''id'' = Inl TypeError"
    by simp
  have c5: "\<forall>dir ls fs. collect_fragments dir = Inr (ls, fs) \<longrightarrow>
         (\<forall>f \<in> set fs. \<exists>kv. f = JObj kv \<and> set required_fields \<subseteq> fst ` set kv)"
    using collected_objects by blast
  have c6: "\<forall>dumps a today dir written.
         output_file (main dumps a today dir) = Some written \<longrightarrow>
         (\<exists>sorted. written = dumps (generate_profile today sorted) @ [CHR 0x0A]
            \<and> (\<forall>f \<in> set sorted. \<exists>kv. f = JObj kv \<and> set required_fields \<subseteq> fst ` set kv))"
  proof (intro allI impI)
    fix dumps a today dir written
    assume "output_file (main dumps a today dir) = Some written"
    from main_templates [OF this] obtain ls fs sorted where
      c: "collect_fragments dir = Inr (ls, fs)"
      and t: "written = dumps (generate_profile today sorted) @ [CHR 0x0A]"
      and s: "set sorted = set fs"
      by blast
    from collected_objects [OF c] s
    have "\<forall>f \<in> set sorted. \<exists>kv. f = JObj kv \<and> set required_fields \<subseteq> fst ` set kv"
      by blast
    with t show "\<exists>sorted. written = dumps (generate_profile today sorted) @ [CHR 0x0A]
            \<and> (\<forall>f \<in> set sorted. \<exists>kv. f = JObj kv \<and> set required_fields \<subseteq> fst ` set kv)"
      by blast
  qed
  show ?thesis
    by (intro conjI) (fact c1 missing_all_names c3 load_fragment_all_names c5 c6)+
qed

theorem load_fragment_objects_only_witness:
  "(\<forall>kv. JInt 3 \<noteq> JObj kv)
   \<and> load_fragment ''three.json'' (Parsed (JInt 3)) = ([Load_error ''three.json'' TypeError], None)
   \<and> load_fragment ''names.json''
        (Parsed (JArr [JStr ''id'', JStr ''name'', JStr ''description'', JStr ''category'',
                       JStr ''variables'']))
      = ([Load_error ''names.json'' TypeError], None)
   \<and> collect_fragments (Some source_dir)
      = Inr ([Scanning, Found 3, Missing_required_fields ''broken.json'' [''variables''],
              Fragment_ok ''docker.json'' (JStr ''docker''),
              Fragment_ok ''openai.json'' (JStr ''openai'')],
             [docker, openai])
   \<and> (\<exists>kv. docker = JObj kv \<and> set required_fields \<subseteq> fst ` set kv)"
proof -
  have n: "\<forall>kv. JInt 3 \<noteq> JObj kv" by simp
  note inst = load_fragment_objects_only [of "''three.json''"]
  from inst n obtain l where "load_fragment ''three.json'' (Parsed (JInt 3)) = ([l], None)"
    by blast
  moreover have "fst (load_fragment ''three.json'' (Parsed (JInt 3))) = [Load_error ''three.json'' TypeError]"
    by (simp add: validate_fragment_def required_fields_def)
  ultimately have a: "load_fragment ''three.json'' (Parsed (JInt 3))
      = ([Load_error ''three.json'' TypeError], None)"
    by simp
  from load_fragment_objects_only [of "''names.json''"]
  have b: "load_fragment ''names.json''
        (Parsed (JArr [JStr ''id'', JStr ''name'', JStr ''description'', JStr ''category'',
                       JStr ''variables'']))
      = ([Load_error ''names.json'' TypeError], None)"
    by (simp add: required_fields_def del: load_fragment.simps)
  from inst collect_source_dir
  have "\<forall>f \<in> set [docker, openai]. \<exists>kv. f = JObj kv \<and> set required_fields \<subseteq> fst ` set kv"
    by blast
  then have c: "\<exists>kv. docker = JObj kv \<and> set required_fields \<subseteq> fst ` set kv"
    by simp
  from n a b c collect_source_dir show ?thesis by simp
qed

subsection \<open>C10: fragments without category or id\<close>

text \<open>
  Claim C10, as amended. The key function never raises on an object: a missing category
  is read as ZZZ, which is not in the precedence list and so gets the rank after the
  last index, the rank of every unlisted category; a missing id is read as the empty
  string. When every id that is present is a string the sorter returns a list with the
  same fragments, in which a fragment without category comes after every fragment with
  a listed category, and a fragment without id comes before every fragment of its rank
  that has a non-empty id.
\<close>

theorem sort_key_total:
  "(\<exists>r i. sort_key_of (JObj d) = Inr (r, i) \<and> r \<le> length category_order
     \<and> (map_of d ''category'' = None \<longrightarrow> r = length category_order)
     \<and> (\<forall>c. map_of d ''category'' = Some (JStr c) \<longrightarrow> r = category_rank c)
     \<and> (map_of d ''id'' = None \<longrightarrow> i = JStr [])
     \<and> (\<forall>v. map_of d ''id'' = Some v \<longrightarrow> i = v))
   \<and> (list_all plain_id fs \<longrightarrow>
        (\<exists>out. sort_fragments fs = Inr out \<and> mset out = mset fs
           \<and> (\<forall>m n. m < length out \<and> n < length out \<and> lacks ''category'' (out ! m)
                 \<and> fst (str_key (out ! n)) < length category_order \<longrightarrow> n < m)
           \<and> (\<forall>m n. m < length out \<and> n < length out
                 \<and> fst (str_key (out ! m)) = fst (str_key (out ! n))
                 \<and> lacks ''id'' (out ! m) \<and> snd (str_key (out ! n)) \<noteq> [] \<longrightarrow> m < n)))"
proof (intro conjI impI)
  show "\<exists>r i. sort_key_of (JObj d) = Inr (r, i) \<and> r \<le> length category_order
     \<and> (map_of d ''category'' = None \<longrightarrow> r = length category_order)
     \<and> (\<forall>c. map_of d ''category'' = Some (JStr c) \<longrightarrow> r = category_rank c)
     \<and> (map_of d ''id'' = None \<longrightarrow> i = JStr [])
     \<and> (\<forall>v. map_of d ''id'' = Some v \<longrightarrow> i = v)"
    by (rule sort_key_of_total)
next
  assume plain: "list_all plain_id fs"
  define out where "out = sort_key str_key fs"
  have "list_all string_keyed fs"
    using plain by (simp add: list_all_iff plain_id_string_keyed)
  then have res: "sort_fragments fs = Inr out"
    unfolding out_def by (rule sort_fragments_string_keyed)
  have ms: "mset out = mset fs"
    unfolding out_def by (rule mset_sort)
  have srt: "sorted (map str_key out)"
    unfolding out_def by (rule sorted_sort_key)
  have pl: "plain_id (out ! m)" if "m < length out" for m
  proof -
    from that have "out ! m \<in> set out" by (rule nth_mem)
    then have "out ! m \<in> set fs" by (simp add: out_def)
    with plain show ?thesis by (simp add: list_all_iff)
  qed
  have ord: "fst (str_key (out ! m)) < fst (str_key (out ! n))
         \<or> (fst (str_key (out ! m)) = fst (str_key (out ! n))
             \<and> snd (str_key (out ! m)) \<le> snd (str_key (out ! n)))"
    if "m < n" "n < length out" for m n
    using srt that by (rule sorted_key_nth)
  have cat: "\<forall>m n. m < length out \<and> n < length out \<and> lacks ''category'' (out ! m)
                 \<and> fst (str_key (out ! n)) < length category_order \<longrightarrow> n < m"
  proof (intro allI impI)
    fix m n
    assume a: "m < length out \<and> n < length out \<and> lacks ''category'' (out ! m)
                 \<and> fst (str_key (out ! n)) < length category_order"
    then have rm: "fst (str_key (out ! m)) = length category_order"
      using pl by (intro lacks_category_rank) simp_all
    show "n < m"
    proof (rule ccontr)
      assume "\<not> n < m"
      moreover have "m \<noteq> n" using a rm by auto
      ultimately have "m < n" by linarith
      from ord [OF this] a have "fst (str_key (out ! m)) \<le> fst (str_key (out ! n))"
        by auto
      with rm a show False by simp
    qed
  qed
  have idf: "\<forall>m n. m < length out \<and> n < length out
                 \<and> fst (str_key (out ! m)) = fst (str_key (out ! n))
                 \<and> lacks ''id'' (out ! m) \<and> snd (str_key (out ! n)) \<noteq> [] \<longrightarrow> m < n"
  proof (intro allI impI)
    fix m n
    assume a: "m < length out \<and> n < length out
                 \<and> fst (str_key (out ! m)) = fst (str_key (out ! n))
                 \<and> lacks ''id'' (out ! m) \<and> snd (str_key (out ! n)) \<noteq> []"
    then have e: "snd (str_key (out ! m)) = []"
      by (intro lacks_id_key) simp
    show "m < n"
    proof (rule ccontr)
      assume "\<not> m < n"
      moreover have "m \<noteq> n" using a e by auto
      ultimately have "n < m" by linarith
      from ord [OF this] a have "snd (str_key (out ! n)) \<le> snd (str_key (out ! m))"
        by auto
      with e a show False by simp
    qed
  qed
  show "\<exists>out. sort_fragments fs = Inr out \<and> mset out = mset fs
           \<and> (\<forall>m n. m < length out \<and> n < length out \<and> lacks ''category'' (out ! m)
                 \<and> fst (str_key (out ! n)) < length category_order \<longrightarrow> n < m)
           \<and> (\<forall>m n. m < length out \<and> n < length out
                 \<and> fst (str_key (out ! m)) = fst (str_key (out ! n))
                 \<and> lacks ''id'' (out ! m) \<and> snd (str_key (out ! n)) \<noteq> [] \<longrightarrow> m < n)"
    by (intro exI [of _ out] conjI) (fact res ms cat idf)+
qed

theorem sort_key_total_witness:
  "list_all plain_id [openai, nameless]
   \<and> map_of [(''category'', JStr ''AI'')] ''id'' = None
   \<and> sort_key_of nameless = Inr (1, JStr [])
   \<and> sort_fragments [openai, nameless] = Inr [nameless, openai]"
proof -
  have h: "list_all plain_id [openai, nameless]"
    by (simp add: plain_id_def openai_def nameless_def fragment_def)
  have r: "category_rank ''AI'' = 1"
    by (simp add: category_rank_def category_order_def)
  from sort_key_total [of "[(''category'', JStr ''AI'')]" "[openai, nameless]"] r
  have k: "sort_key_of nameless = Inr (1, JStr [])"
    by (auto simp: nameless_def)
  from sort_key_total [of "[(''category'', JStr ''AI'')]" "[openai, nameless]"] h
  obtain out where out: "sort_fragments [openai, nameless] = Inr out"
    and first: "\<forall>m n. m < length out \<and> n < length out
                 \<and> fst (str_key (out ! m)) = fst (str_key (out ! n))
                 \<and> lacks ''id'' (out ! m) \<and> snd (str_key (out ! n)) \<noteq> [] \<longrightarrow> m < n"
    by blast
  have "sort_fragments [openai, nameless] = Inr [nameless, openai]"
    by (simp add: sort_fragments_def k fragment_key openai_def r key_lt_def sort_lt_def)
  with h k show ?thesis by simp
qed

text \<open>
  The sorter itself is not total on arbitrary objects: an id that is a number and a
  missing id in the same rank are compared as \<^verbatim>\<open>"" < 5\<close>, which raises
  \<^verbatim>\<open>TypeError\<close>.
\<close>

theorem sort_fragments_total_counterexample:
  "sort_key_of numbered = Inr (1, JInt 5)
   \<and> sort_key_of nameless = Inr (1, JStr [])
   \<and> key_lt (1, JStr []) (1, JInt 5) = Inl TypeError
   \<and> sort_fragments [numbered, nameless] = Inl TypeError"
  by (simp add: numbered_def nameless_def sort_fragments_def sort_key_of_eq category_order_def
      key_lt_def)

end
